(* ===== verification/Rust_Prelude.thy ===== *)
theory Rust_Prelude
  imports Main "HOL-Library.Word" "HOL-Library.Multiset"
begin

text \<open>
  What every component of the development shares: the names of Rust's fixed-width
  integers, the few operations of the Rust standard library the program calls on
  integers, iterators and vectors (\<open>saturating_sub\<close>, \<open>max_by_key\<close>, \<open>min_by_key\<close>,
  the stable \<open>sort_by\<close>), and the lemmas about them that the components use.
  The collections \<open>rust_defs\<close> and \<open>word_reading\<close> gather the definitional
  equations and the \<^const>\<open>unat\<close> readings of the word operations.
\<close>

unbundle bit_operations_syntax

named_theorems rust_defs \<open>definitions of the Rust library operations\<close>
named_theorems word_reading \<open>readings of word operations as natural numbers\<close>

type_synonym u8 = "8 word"
type_synonym u16 = "16 word"
type_synonym u32 = "32 word"
type_synonym u64 = "64 word"
type_synonym i32 = "32 word"
type_synonym i64 = "64 word"

section \<open>Integers\<close>

definition saturating_sub :: "'w::len word \<Rightarrow> 'w word \<Rightarrow> 'w word" where
  "saturating_sub a b = (if b \<le> a then a - b else 0)"

section \<open>Iterators\<close>

text \<open>
  \<open>Iterator::max_by_key\<close> keeps the later of two elements with equal keys,
  \<open>Iterator::min_by_key\<close> the earlier one; both are a fold over the elements.
\<close>

fun max_by_key_from :: "('a \<Rightarrow> 'k::linorder) \<Rightarrow> 'a \<Rightarrow> 'a list \<Rightarrow> 'a" where
  "max_by_key_from f x [] = x"
| "max_by_key_from f x (y # ys) = max_by_key_from f (if f x \<le> f y then y else x) ys"

fun max_by_key :: "('a \<Rightarrow> 'k::linorder) \<Rightarrow> 'a list \<Rightarrow> 'a option" where
  "max_by_key f [] = None"
| "max_by_key f (x # xs) = Some (max_by_key_from f x xs)"

fun min_by_key_from :: "('a \<Rightarrow> 'k::linorder) \<Rightarrow> 'a \<Rightarrow> 'a list \<Rightarrow> 'a" where
  "min_by_key_from f x [] = x"
| "min_by_key_from f x (y # ys) = min_by_key_from f (if f y < f x then y else x) ys"

fun min_by_key :: "('a \<Rightarrow> 'k::linorder) \<Rightarrow> 'a list \<Rightarrow> 'a option" where
  "min_by_key f [] = None"
| "min_by_key f (x # xs) = Some (min_by_key_from f x xs)"

text \<open>\<open>Iterator::position\<close>: the index of the first element that satisfies the predicate.\<close>

fun position :: "('a \<Rightarrow> bool) \<Rightarrow> 'a list \<Rightarrow> nat option" where
  "position P [] = None"
| "position P (x # xs) = (if P x then Some 0 else map_option Suc (position P xs))"

section \<open>Stable sorting\<close>

text \<open>
  \<open>slice::sort_by\<close> is a stable sort. A stable sort has one result for each input, so
  insertion from the right stands for any implementation of it; \<open>le x y\<close> reads
  "the comparison of x with y is not Greater".
\<close>

fun insert_by :: "('a \<Rightarrow> 'a \<Rightarrow> bool) \<Rightarrow> 'a \<Rightarrow> 'a list \<Rightarrow> 'a list" where
  "insert_by le x [] = [x]"
| "insert_by le x (y # ys) = (if le x y then x # y # ys else y # insert_by le x ys)"

definition sort_by :: "('a \<Rightarrow> 'a \<Rightarrow> bool) \<Rightarrow> 'a list \<Rightarrow> 'a list" where
  "sort_by le xs = foldr (insert_by le) xs []"

section \<open>Lemmas\<close>

lemma unat_saturating_sub [word_reading]:
  "unat (saturating_sub a b) = unat a - unat b"
  by (auto simp: saturating_sub_def unat_sub word_le_nat_alt)

lemma saturating_sub_le: "saturating_sub a b \<le> a"
  by (simp add: word_le_nat_alt unat_saturating_sub)

lemma max_by_key_None [simp]: "max_by_key f xs = None \<longleftrightarrow> xs = []"
  by (cases xs) auto

lemma min_by_key_None [simp]: "min_by_key f xs = None \<longleftrightarrow> xs = []"
  by (cases xs) auto

text \<open>The fold seen from the right: the head wins only where the source lets it win.\<close>

lemma max_by_key_from_right:
  "max_by_key_from f x xs =
     (case max_by_key f xs of None \<Rightarrow> x | Some m \<Rightarrow> if f m < f x then x else m)"
proof (induction xs arbitrary: x)
  case (Cons y ys)
  then show ?case by (cases "max_by_key f ys") auto
qed simp

lemma min_by_key_from_right:
  "min_by_key_from f x xs =
     (case min_by_key f xs of None \<Rightarrow> x | Some m \<Rightarrow> if f m < f x then m else x)"
proof (induction xs arbitrary: x)
  case (Cons y ys)
  then show ?case by (cases "min_by_key f ys") auto
qed simp

lemma max_by_key_split:
  assumes "max_by_key f xs = Some m"
  shows "\<exists>ys zs. xs = ys @ m # zs \<and> (\<forall>y\<in>set ys. f y \<le> f m) \<and> (\<forall>z\<in>set zs. f z < f m)"
  using assms
proof (induction xs arbitrary: m)
  case (Cons x xs)
  show ?case
  proof (cases "max_by_key f xs")
    case None
    with Cons.prems show ?thesis by - (rule exI [of _ "[]"], simp)
  next
    case (Some k)
    obtain ys zs where k: "xs = ys @ k # zs" "\<forall>y\<in>set ys. f y \<le> f k" "\<forall>z\<in>set zs. f z < f k"
      using Cons.IH [OF Some] by blast
    show ?thesis
    proof (cases "f k < f x")
      case True
      then have "m = x" using Cons.prems Some by (simp add: max_by_key_from_right)
      moreover have "\<forall>z\<in>set xs. f z < f x" using k True by auto
      ultimately show ?thesis by - (rule exI [of _ "[]"], simp)
    next
      case False
      then have "m = k" using Cons.prems Some by (simp add: max_by_key_from_right)
      then show ?thesis using k False by - (rule exI [of _ "x # ys"], rule exI [of _ zs], simp)
    qed
  qed
qed simp

lemma min_by_key_split:
  assumes "min_by_key f xs = Some m"
  shows "\<exists>ys zs. xs = ys @ m # zs \<and> (\<forall>y\<in>set ys. f m < f y) \<and> (\<forall>z\<in>set zs. f m \<le> f z)"
  using assms
proof (induction xs arbitrary: m)
  case (Cons x xs)
  show ?case
  proof (cases "min_by_key f xs")
    case None
    with Cons.prems show ?thesis by - (rule exI [of _ "[]"], simp)
  next
    case (Some k)
    obtain ys zs where k: "xs = ys @ k # zs" "\<forall>y\<in>set ys. f k < f y" "\<forall>z\<in>set zs. f k \<le> f z"
      using Cons.IH [OF Some] by blast
    show ?thesis
    proof (cases "f k < f x")
      case True
      then have "m = k" using Cons.prems Some by (simp add: min_by_key_from_right)
      then show ?thesis using k True by - (rule exI [of _ "x # ys"], rule exI [of _ zs], simp)
    next
      case False
      then have "m = x" using Cons.prems Some by (simp add: min_by_key_from_right)
      moreover have "\<forall>z\<in>set xs. f x \<le> f z" using k False by auto
      ultimately show ?thesis by - (rule exI [of _ "[]"], simp)
    qed
  qed
qed simp

text \<open>The split determines the result, so it characterises it.\<close>

lemma max_by_key_unique:
  assumes "\<forall>y\<in>set ys. f y \<le> f m" and "\<forall>z\<in>set zs. f z < f m"
  shows "max_by_key f (ys @ m # zs) = Some m"
  using assms(1)
proof (induction ys)
  case Nil
  have "f k < f m" if "max_by_key f zs = Some k" for k
    using max_by_key_split [OF that] assms(2) by auto
  then show ?case by (auto simp: max_by_key_from_right split: option.split)
qed (auto simp: max_by_key_from_right)

lemma min_by_key_unique:
  assumes "\<forall>y\<in>set ys. f m < f y" and "\<forall>z\<in>set zs. f m \<le> f z"
  shows "min_by_key f (ys @ m # zs) = Some m"
  using assms(1)
proof (induction ys)
  case Nil
  have "\<not> f k < f m" if "min_by_key f zs = Some k" for k
    using min_by_key_split [OF that] assms(2) by (auto simp: not_less)
  then show ?case by (auto simp: min_by_key_from_right split: option.split)
qed (auto simp: min_by_key_from_right)

text \<open>A split of a filtered list is a split of the list.\<close>

lemma filter_split:
  assumes "filter Q xs = ys @ m # zs"
  shows "\<exists>us vs. xs = us @ m # vs \<and> filter Q us = ys \<and> filter Q vs = zs \<and> Q m"
  using assms
proof (induction xs arbitrary: ys)
  case (Cons x xs)
  show ?case
  proof (cases "Q x \<and> ys = []")
    case True
    with Cons.prems show ?thesis by - (rule exI [of _ "[]"], auto)
  next
    case False
    then have "filter Q xs = (if Q x then tl ys else ys) @ m # zs"
      using Cons.prems by (cases ys) auto
    from Cons.IH [OF this] obtain us vs where
      "xs = us @ m # vs" "filter Q us = (if Q x then tl ys else ys)" "filter Q vs = zs" "Q m" by blast
    with False Cons.prems show ?thesis
      by - (rule exI [of _ "x # us"], rule exI [of _ vs], cases ys, auto split: if_splits)
  qed
qed simp

lemma max_by_key_filter_iff:
  "max_by_key f (filter Q xs) = Some m \<longleftrightarrow>
     (\<exists>us vs. xs = us @ m # vs \<and> Q m \<and> (\<forall>u\<in>set us. Q u \<longrightarrow> f u \<le> f m)
        \<and> (\<forall>v\<in>set vs. Q v \<longrightarrow> f v < f m))"
proof
  assume "max_by_key f (filter Q xs) = Some m"
  from max_by_key_split [OF this] obtain ys zs where
    s: "filter Q xs = ys @ m # zs" "\<forall>y\<in>set ys. f y \<le> f m" "\<forall>z\<in>set zs. f z < f m" by blast
  from filter_split [OF s(1)] obtain us vs where
    "xs = us @ m # vs" "filter Q us = ys" "filter Q vs = zs" "Q m" by blast
  with s(2,3) show "\<exists>us vs. xs = us @ m # vs \<and> Q m \<and> (\<forall>u\<in>set us. Q u \<longrightarrow> f u \<le> f m)
        \<and> (\<forall>v\<in>set vs. Q v \<longrightarrow> f v < f m)" by - (rule exI [of _ us], rule exI [of _ vs], auto)
next
  assume "\<exists>us vs. xs = us @ m # vs \<and> Q m \<and> (\<forall>u\<in>set us. Q u \<longrightarrow> f u \<le> f m)
        \<and> (\<forall>v\<in>set vs. Q v \<longrightarrow> f v < f m)"
  then show "max_by_key f (filter Q xs) = Some m"
    by (auto intro!: max_by_key_unique)
qed

lemma min_by_key_filter_iff:
  "min_by_key f (filter Q xs) = Some m \<longleftrightarrow>
     (\<exists>us vs. xs = us @ m # vs \<and> Q m \<and> (\<forall>u\<in>set us. Q u \<longrightarrow> f m < f u)
        \<and> (\<forall>v\<in>set vs. Q v \<longrightarrow> f m \<le> f v))"
proof
  assume "min_by_key f (filter Q xs) = Some m"
  from min_by_key_split [OF this] obtain ys zs where
    s: "filter Q xs = ys @ m # zs" "\<forall>y\<in>set ys. f m < f y" "\<forall>z\<in>set zs. f m \<le> f z" by blast
  from filter_split [OF s(1)] obtain us vs where
    "xs = us @ m # vs" "filter Q us = ys" "filter Q vs = zs" "Q m" by blast
  with s(2,3) show "\<exists>us vs. xs = us @ m # vs \<and> Q m \<and> (\<forall>u\<in>set us. Q u \<longrightarrow> f m < f u)
        \<and> (\<forall>v\<in>set vs. Q v \<longrightarrow> f m \<le> f v)" by - (rule exI [of _ us], rule exI [of _ vs], auto)
next
  assume "\<exists>us vs. xs = us @ m # vs \<and> Q m \<and> (\<forall>u\<in>set us. Q u \<longrightarrow> f m < f u)
        \<and> (\<forall>v\<in>set vs. Q v \<longrightarrow> f m \<le> f v)"
  then show "min_by_key f (filter Q xs) = Some m"
    by (auto intro!: min_by_key_unique)
qed

text \<open>Elements that only miss a lower bound on the key may be left out of the comparison.\<close>

lemma max_by_key_window_iff:
  assumes sub: "\<And>x. Q x \<Longrightarrow> R x" and out: "\<And>x. Q m \<Longrightarrow> R x \<Longrightarrow> \<not> Q x \<Longrightarrow> f x < f m"
  shows "max_by_key f (filter Q xs) = Some m \<longleftrightarrow>
     (\<exists>us vs. xs = us @ m # vs \<and> Q m \<and> (\<forall>u\<in>set us. R u \<longrightarrow> f u \<le> f m)
        \<and> (\<forall>v\<in>set vs. R v \<longrightarrow> f v < f m))"
proof -
  have "(\<forall>u\<in>S. Q u \<longrightarrow> f u \<le> f m) \<longleftrightarrow> (\<forall>u\<in>S. R u \<longrightarrow> f u \<le> f m)"
    "(\<forall>u\<in>S. Q u \<longrightarrow> f u < f m) \<longleftrightarrow> (\<forall>u\<in>S. R u \<longrightarrow> f u < f m)" if "Q m" for S
    using sub out [OF that] by (meson less_imp_le)+
  then show ?thesis unfolding max_by_key_filter_iff by (simp cong: conj_cong)
qed

lemma min_by_key_window_iff:
  assumes sub: "\<And>x. Q x \<Longrightarrow> R x" and out: "\<And>x. Q m \<Longrightarrow> R x \<Longrightarrow> \<not> Q x \<Longrightarrow> f m < f x"
  shows "min_by_key f (filter Q xs) = Some m \<longleftrightarrow>
     (\<exists>us vs. xs = us @ m # vs \<and> Q m \<and> (\<forall>u\<in>set us. R u \<longrightarrow> f m < f u)
        \<and> (\<forall>v\<in>set vs. R v \<longrightarrow> f m \<le> f v))"
proof -
  have "(\<forall>u\<in>S. Q u \<longrightarrow> f m \<le> f u) \<longleftrightarrow> (\<forall>u\<in>S. R u \<longrightarrow> f m \<le> f u)"
    "(\<forall>u\<in>S. Q u \<longrightarrow> f m < f u) \<longleftrightarrow> (\<forall>u\<in>S. R u \<longrightarrow> f m < f u)" if "Q m" for S
    using sub out [OF that] by (meson less_imp_le)+
  then show ?thesis unfolding min_by_key_filter_iff by (simp cong: conj_cong)
qed

lemma max_by_key_max: "max_by_key f xs = Some m \<Longrightarrow> m \<in> set xs \<and> (\<forall>x\<in>set xs. f x \<le> f m)"
  by (drule max_by_key_split) (force intro: less_imp_le)

lemma min_by_key_min: "min_by_key f xs = Some m \<Longrightarrow> m \<in> set xs \<and> (\<forall>x\<in>set xs. f m \<le> f x)"
  by (drule min_by_key_split) (force intro: less_imp_le)

lemma position_Some:
  "position P xs = Some i \<longleftrightarrow> i < length xs \<and> P (xs ! i) \<and> (\<forall>j<i. \<not> P (xs ! j))"
proof (induction xs arbitrary: i)
  case (Cons x xs)
  then show ?case by (cases i) (auto simp: less_Suc_eq_0_disj)
qed simp

lemma position_None: "position P xs = None \<longleftrightarrow> (\<forall>x\<in>set xs. \<not> P x)"
  by (induction xs) auto

lemma mset_insert_by [simp]: "mset (insert_by le x xs) = add_mset x (mset xs)"
  by (induction xs) auto

lemma mset_sort_by [simp]: "mset (sort_by le xs) = mset xs"
  by (induction xs) (auto simp: sort_by_def)

lemma set_sort_by [simp]: "set (sort_by le xs) = set xs"
  by (metis mset_sort_by set_mset_mset)

lemma length_sort_by [simp]: "length (sort_by le xs) = length xs"
  by (metis mset_sort_by size_mset)

lemma set_insert_by [simp]: "set (insert_by le x xs) = insert x (set xs)"
  by (induction xs) auto

lemma sorted_insert_by:
  assumes total: "\<And>a b. le a b \<or> le b a" and trans: "\<And>a b c. le a b \<Longrightarrow> le b c \<Longrightarrow> le a c"
  shows "sorted_wrt le xs \<Longrightarrow> sorted_wrt le (insert_by le x xs)"
proof (induction xs)
  case (Cons y ys)
  show ?case
  proof (cases "le x y")
    case True
    then have "\<forall>z\<in>set ys. le x z" using Cons.prems trans [OF True] by simp
    with True Cons.prems show ?thesis by simp
  next
    case False
    then have "le y x" using total by blast
    with False Cons show ?thesis by simp
  qed
qed simp

lemma sorted_sort_by:
  assumes "\<And>a b. le a b \<or> le b a" "\<And>a b c. le a b \<Longrightarrow> le b c \<Longrightarrow> le a c"
  shows "sorted_wrt le (sort_by le xs)"
  unfolding sort_by_def by (induction xs) (auto intro: sorted_insert_by [OF assms])

text \<open>Stability: the elements of one key class keep their order.\<close>

lemma filter_insert_by:
  assumes "\<And>y. P x \<Longrightarrow> P y \<Longrightarrow> le x y"
  shows "filter P (insert_by le x xs) = (if P x then x # filter P xs else filter P xs)"
  by (induction xs) (use assms in auto)

lemma filter_sort_by:
  assumes "\<And>x y. P x \<Longrightarrow> P y \<Longrightarrow> le x y"
  shows "filter P (sort_by le xs) = filter P xs"
  by (induction xs) (auto simp: sort_by_def filter_insert_by assms)

lemma sorted_wrt_take_drop:
  "sorted_wrt le xs \<Longrightarrow> x \<in> set (take n xs) \<Longrightarrow> y \<in> set (drop n xs) \<Longrightarrow> le x y"
  using sorted_wrt_append [of le "take n xs" "drop n xs"] by simp

text \<open>Where keys identify elements, the folds and the sort depend on the elements alone.\<close>

lemma max_by_key_set_cong:
  assumes "set xs = set ys" and "inj_on f (set xs)"
  shows "max_by_key f xs = max_by_key f ys"
proof (cases "max_by_key f xs")
  case None
  then show ?thesis using assms(1) by (metis max_by_key_None set_empty2)
next
  case (Some m)
  with assms(1) obtain m' where m': "max_by_key f ys = Some m'"
    by (metis max_by_key_None not_Some_eq set_empty2)
  have "m \<in> set xs" "\<forall>x\<in>set xs. f x \<le> f m" "m' \<in> set ys" "\<forall>x\<in>set ys. f x \<le> f m'"
    using max_by_key_max [OF Some] max_by_key_max [OF m'] by auto
  then have "m = m'" using assms by (metis inj_onD order_antisym)
  then show ?thesis using Some m' by simp
qed

lemma min_by_key_set_cong:
  assumes "set xs = set ys" and "inj_on f (set xs)"
  shows "min_by_key f xs = min_by_key f ys"
proof (cases "min_by_key f xs")
  case None
  then show ?thesis using assms(1) by (metis min_by_key_None set_empty2)
next
  case (Some m)
  with assms(1) obtain m' where m': "min_by_key f ys = Some m'"
    by (metis min_by_key_None not_Some_eq set_empty2)
  have "m \<in> set xs" "\<forall>x\<in>set xs. f m \<le> f x" "m' \<in> set ys" "\<forall>x\<in>set ys. f m' \<le> f x"
    using min_by_key_min [OF Some] min_by_key_min [OF m'] by auto
  then have "m = m'" using assms by (metis inj_onD order_antisym)
  then show ?thesis using Some m' by simp
qed

lemma sorted_wrt_unique:
  assumes "sorted_wrt le xs" "sorted_wrt le ys" "mset xs = mset ys"
    and "\<And>x y. x \<in> set xs \<Longrightarrow> y \<in> set xs \<Longrightarrow> le x y \<Longrightarrow> le y x \<Longrightarrow> x = y"
  shows "xs = ys"
  using assms
proof (induction xs arbitrary: ys)
  case (Cons x xs)
  then obtain y ys' where ys: "ys = y # ys'" by (cases ys) auto
  have sets: "set ys = set (x # xs)" using Cons.prems(3) by (metis set_mset_mset)
  then have "y = x \<or> le x y" "x = y \<or> le y x"
    using Cons.prems(1,2) ys by auto
  then have "x = y" using Cons.prems(4) [of x y] sets ys by auto
  then show ?case using Cons ys by auto
qed simp

end
