(* ===== verification/Repr_C.thy ===== *)
theory Repr_C
  imports Rust_Prelude
begin

text \<open>
  Memory representation of \<open>#[repr(C)]\<close> structs: the layout algorithm (offset of each
  field, trailing padding) and little-endian integers as byte lists, for the targets
  of the program (bpfel, x86_64, aarch64 are little-endian). The layout lemmas say that
  fields are aligned and disjoint; the byte lemmas are the round trips that the event
  schema and the tracepoint records rest on.
\<close>

section \<open>The layout algorithm\<close>

type_synonym field = "nat \<times> nat" \<comment> \<open>size and alignment in bytes\<close>

definition align_up :: "nat \<Rightarrow> nat \<Rightarrow> nat" where
  "align_up off a = (off + a - 1) div a * a"

fun field_offsets :: "nat \<Rightarrow> field list \<Rightarrow> nat list \<times> nat" where
  "field_offsets off [] = ([], off)"
| "field_offsets off ((sz, al) # fs) =
     (let start = align_up off al; (offs, stop) = field_offsets (start + sz) fs
      in (start # offs, stop))"

definition struct_align :: "field list \<Rightarrow> nat" where
  "struct_align fs = foldr (\<lambda>(_, al) m. max al m) fs 1"

definition size_of :: "field list \<Rightarrow> nat" where
  "size_of fs = align_up (snd (field_offsets 0 fs)) (struct_align fs)"

definition offsets_of :: "field list \<Rightarrow> nat list" where
  "offsets_of fs = fst (field_offsets 0 fs)"

section \<open>Bytes\<close>

definition le_bytes :: "nat \<Rightarrow> 'w::len word \<Rightarrow> u8 list" where
  "le_bytes n w = map (\<lambda>i. ucast (drop_bit (8 * i) w)) [0..<n]"

fun le_word :: "u8 list \<Rightarrow> 'w::len word" where
  "le_word [] = 0"
| "le_word (b # bs) = ucast b OR push_bit 8 (le_word bs)"

definition byte_slice :: "nat \<Rightarrow> nat \<Rightarrow> 'a list \<Rightarrow> 'a list" where
  "byte_slice off n bs = take n (drop off bs)"

text \<open>
  Field \<open>i\<close> of a struct in memory, and the bytes of a struct whose fields have the given
  bytes. Bytes between the fields and after the last one are padding, whose content
  \<open>pad\<close> Rust leaves unspecified.
\<close>

definition field_bytes :: "field list \<Rightarrow> nat \<Rightarrow> u8 list \<Rightarrow> u8 list" where
  "field_bytes fs i bs = byte_slice (offsets_of fs ! i) (fst (fs ! i)) bs"

definition field_at :: "field list \<Rightarrow> nat \<Rightarrow> nat option" where
  "field_at fs k =
     find (\<lambda>i. offsets_of fs ! i \<le> k \<and> k < offsets_of fs ! i + fst (fs ! i)) [0..<length fs]"

definition struct_bytes :: "(nat \<Rightarrow> u8) \<Rightarrow> field list \<Rightarrow> u8 list list \<Rightarrow> u8 list" where
  "struct_bytes pad fs vals =
     map (\<lambda>k. case field_at fs k of None \<Rightarrow> pad k | Some i \<Rightarrow> vals ! i ! (k - offsets_of fs ! i))
       [0..<size_of fs]"

section \<open>Layout lemmas\<close>

lemma align_up_ge: "0 < a \<Longrightarrow> off \<le> align_up off a"
proof -
  assume a: "0 < a"
  have "off + a - 1 = (off + a - 1) div a * a + (off + a - 1) mod a"
    by simp
  moreover have "(off + a - 1) mod a < a" using a by simp
  ultimately show ?thesis unfolding align_up_def by linarith
qed

lemma align_up_dvd: "a dvd align_up off a"
  by (simp add: align_up_def)

lemma length_field_offsets [simp]: "length (fst (field_offsets off fs)) = length fs"
  by (induction off fs rule: field_offsets.induct) (auto simp: Let_def split: prod.splits)

lemma field_offsets_ge:
  "\<forall>(s, a)\<in>set fs. 0 < a \<Longrightarrow> \<forall>o'\<in>set (fst (field_offsets off fs)). off \<le> o'"
proof (induction off fs rule: field_offsets.induct)
  case (2 off sz al fs)
  have "off \<le> align_up off al" using 2(2) by (intro align_up_ge) simp
  moreover have "\<forall>o'\<in>set (fst (field_offsets (align_up off al + sz) fs)).
      align_up off al + sz \<le> o'"
    using 2 by simp
  ultimately show ?case by (fastforce simp: Let_def split: prod.splits)
qed simp

lemma field_offsets_stop:
  "\<forall>(s, a)\<in>set fs. 0 < a \<Longrightarrow> off \<le> snd (field_offsets off fs)"
proof (induction off fs rule: field_offsets.induct)
  case (2 off sz al fs)
  have "off \<le> align_up off al" using 2(2) by (intro align_up_ge) simp
  moreover have "align_up off al + sz \<le> snd (field_offsets (align_up off al + sz) fs)"
    using 2 by simp
  ultimately show ?case by (auto simp: Let_def split: prod.splits)
qed simp

lemma field_offsets_disjoint:
  assumes "\<forall>(s, a)\<in>set fs. 0 < a" and "i < j" and "j < length fs"
  shows "fst (field_offsets off fs) ! i + fst (fs ! i) \<le> fst (field_offsets off fs) ! j"
  using assms
proof (induction off fs arbitrary: i j rule: field_offsets.induct)
  case (2 off sz al fs)
  let ?rest = "field_offsets (align_up off al + sz) fs"
  have ge: "\<forall>o'\<in>set (fst ?rest). align_up off al + sz \<le> o'"
    using 2(2) by (intro field_offsets_ge) auto
  obtain j' where j: "j = Suc j'" "j' < length fs" using 2(3,4) by (cases j) auto
  show ?case
  proof (cases i)
    case 0
    have "align_up off al + sz \<le> fst ?rest ! j'" using ge j(2) by simp
    then show ?thesis using 0 j by (auto simp: Let_def split: prod.splits)
  next
    case (Suc i')
    then show ?thesis using 2 j by (auto simp: Let_def split: prod.splits)
  qed
qed simp

lemma field_offsets_aligned:
  "i < length fs \<Longrightarrow> snd (fs ! i) dvd fst (field_offsets off fs) ! i"
proof (induction off fs arbitrary: i rule: field_offsets.induct)
  case (2 off sz al fs)
  then show ?case by (cases i) (auto simp: Let_def align_up_dvd split: prod.splits)
qed simp

section \<open>Byte lemmas\<close>

lemma length_le_bytes [simp]: "length (le_bytes n w) = n"
  by (simp add: le_bytes_def)

lemma length_byte_slice [simp]: "length (byte_slice off n bs) = min n (length bs - off)"
  by (simp add: byte_slice_def)

lemma byte_slice_append_left [simp]:
  "off + n \<le> length xs \<Longrightarrow> byte_slice off n (xs @ ys) = byte_slice off n xs"
  by (simp add: byte_slice_def)

lemma byte_slice_append_right [simp]:
  "length xs \<le> off \<Longrightarrow> byte_slice off n (xs @ ys) = byte_slice (off - length xs) n ys"
  by (simp add: byte_slice_def)

lemma byte_slice_whole [simp]: "length xs = n \<Longrightarrow> byte_slice 0 n xs = xs"
  by (simp add: byte_slice_def)

lemma byte_slice_concat:
  "\<forall>x\<in>set xs. length (f x) = n \<Longrightarrow> j < length xs \<Longrightarrow>
   byte_slice (n * j) n (concat (map f xs)) = f (xs ! j)"
proof (induction xs arbitrary: j)
  case (Cons x xs)
  then show ?case by (cases j) (auto simp: byte_slice_def)
qed simp

lemma bit_le_word:
  "bit (le_word bs :: 'w::len word) k \<longleftrightarrow>
     k < LENGTH('w) \<and> k div 8 < length bs \<and> bit (bs ! (k div 8)) (k mod 8)"
proof (induction bs arbitrary: k)
  case (Cons b bs)
  show ?case
  proof (cases "k < 8")
    case True
    then show ?thesis by (auto simp: bit_or_iff bit_push_bit_iff bit_ucast_iff dest: bit_imp_le_length)
  next
    case False
    then have k: "k div 8 = Suc ((k - 8) div 8)" "k mod 8 = (k - 8) mod 8"
      by (simp_all add: le_div_geq le_mod_geq)
    have "\<not> bit (ucast b :: 'w word) k"
      using False by (auto simp: bit_ucast_iff dest: bit_imp_le_length)
    then show ?thesis
      using False Cons.IH [of "k - 8"] k
      by (auto simp: bit_or_iff bit_push_bit_iff dest: bit_imp_le_length)
  qed
qed simp

lemma le_word_le_bytes [simp]:
  fixes w :: "'w::len word"
  assumes "LENGTH('w) \<le> 8 * n"
  shows "le_word (le_bytes n w) = w"
proof (rule bit_word_eqI)
  fix k assume k: "k < LENGTH('w)"
  then have "k div 8 < n" using assms by linarith
  moreover have "8 * (k div 8) + k mod 8 = k" by simp
  ultimately show "bit (le_word (le_bytes n w) :: 'w word) k \<longleftrightarrow> bit w k"
    using k by (simp add: bit_le_word le_bytes_def bit_ucast_iff bit_drop_bit_eq)
qed

lemma le_bytes_le_word [simp]:
  assumes "LENGTH('w::len) = 8 * n" and "length bs = n"
  shows "le_bytes n (le_word bs :: 'w word) = bs"
proof (rule nth_equalityI)
  fix i assume "i < length (le_bytes n (le_word bs :: 'w word))"
  then have i: "i < n" by simp
  show "le_bytes n (le_word bs :: 'w word) ! i = bs ! i"
  proof (rule bit_word_eqI)
    fix k assume "k < LENGTH(8)"
    then have k: "k < 8" by simp
    then have "(8 * i + k) div 8 = i" "(8 * i + k) mod 8 = k" "8 * i + k < 8 * n"
      using i by simp_all
    then show "bit (le_bytes n (le_word bs :: 'w word) ! i) k \<longleftrightarrow> bit (bs ! i) k"
      using i k assms by (simp add: le_bytes_def bit_ucast_iff bit_drop_bit_eq bit_le_word)
  qed
qed (use assms in simp)

lemma length_struct_bytes [simp]: "length (struct_bytes pad fs vals) = size_of fs"
  by (simp add: struct_bytes_def)

section \<open>Structs\<close>

text \<open>
  What a client of a \<open>repr(C)\<close> struct relies on: every field lies inside the struct,
  and reading a field of a written struct gives the bytes written, whatever the padding
  holds. It needs no more than that alignments are positive.
\<close>

locale c_struct =
  fixes fs :: "field list"
  assumes positive_align: "\<forall>(sz, al)\<in>set fs. 0 < al"
begin

lemma offset_stop:
  "i < length fs \<Longrightarrow> offsets_of fs ! i + fst (fs ! i) \<le> snd (field_offsets 0 fs)"
proof -
  have "i < length gs \<Longrightarrow> \<forall>(sz, al)\<in>set gs. 0 < al \<Longrightarrow>
      fst (field_offsets off gs) ! i + fst (gs ! i) \<le> snd (field_offsets off gs)" for off gs
  proof (induction off gs arbitrary: i rule: field_offsets.induct)
    case (2 off sz al gs)
    have "align_up off al + sz \<le> snd (field_offsets (align_up off al + sz) gs)"
      using 2(3) by (intro field_offsets_stop) auto
    with 2 show ?case by (cases i) (auto simp: Let_def split: prod.splits)
  qed simp
  then show "i < length fs \<Longrightarrow> ?thesis" using positive_align by (simp add: offsets_of_def)
qed

lemma field_in_struct:
  assumes "i < length fs"
  shows "offsets_of fs ! i + fst (fs ! i) \<le> size_of fs"
proof -
  have "0 < struct_align gs" for gs
    unfolding struct_align_def by (induction gs) auto
  then show ?thesis
    using offset_stop [OF assms] align_up_ge [of "struct_align fs" "snd (field_offsets 0 fs)"]
    unfolding size_of_def by simp
qed

lemma field_at_inside:
  assumes "i < length fs" and "k < fst (fs ! i)"
  shows "field_at fs (offsets_of fs ! i + k) = Some i"
proof -
  have "\<not> (offsets_of fs ! j \<le> offsets_of fs ! i + k \<and>
      offsets_of fs ! i + k < offsets_of fs ! j + fst (fs ! j))" if "j < i" for j
    using field_offsets_disjoint [OF positive_align that assms(1), of 0]
    by (simp add: offsets_of_def)
  with assms show ?thesis
    unfolding field_at_def find_Some_iff
    by (intro exI [of _ i]) simp
qed

lemma field_struct_bytes:
  assumes "i < length fs" and "length (vals ! i) = fst (fs ! i)"
  shows "field_bytes fs i (struct_bytes pad fs vals) = vals ! i"
proof (rule nth_equalityI)
  show "length (field_bytes fs i (struct_bytes pad fs vals)) = length (vals ! i)"
    using assms field_in_struct [OF assms(1)] by (simp add: field_bytes_def)
next
  fix k assume "k < length (field_bytes fs i (struct_bytes pad fs vals))"
  then have k: "k < fst (fs ! i)" by (simp add: field_bytes_def)
  moreover have "offsets_of fs ! i + k < size_of fs"
    using field_in_struct [OF assms(1)] k by simp
  ultimately show "field_bytes fs i (struct_bytes pad fs vals) ! k = vals ! i ! k"
    using field_at_inside [OF assms(1) k]
    by (simp add: field_bytes_def byte_slice_def struct_bytes_def)
qed

lemma length_field_bytes:
  "i < length fs \<Longrightarrow> length bs = size_of fs \<Longrightarrow> length (field_bytes fs i bs) = fst (fs ! i)"
  using field_in_struct by (fastforce simp: field_bytes_def)

end

end
