(* ===== verification/Event_Schema.thy ===== *)
theory Event_Schema
  imports Repr_C
begin

text \<open>
  The event schema both sides share (\<open>whyslow-common/src/lib.rs\<close>): the event types, the
  fixed-size \<open>Event\<close> record with its byte representation, and the packing of a block
  device and sector into one key. The lemmas are the representation round trip, the
  record size, and what packing keeps and loses.
\<close>

section \<open>Event types\<close>

named_theorems event_types \<open>the event type constants\<close>

definition EVENT_SCHED_BLOCK :: u8 where [event_types]: "EVENT_SCHED_BLOCK = 0"
definition EVENT_FUTEX_WAIT :: u8 where [event_types]: "EVENT_FUTEX_WAIT = 1"
definition EVENT_FUTEX_WAKE :: u8 where [event_types]: "EVENT_FUTEX_WAKE = 2"
definition EVENT_BLOCK_IO :: u8 where [event_types]: "EVENT_BLOCK_IO = 3"

definition TASK_COMM_LEN :: nat where "TASK_COMM_LEN = 16"

section \<open>The record\<close>

record event =
  ev_timestamp_ns :: u64
  ev_duration_ns :: u64
  ev_key :: u64
  ev_pid :: u32
  ev_tid :: u32
  ev_event_type :: u8
  ev_pad :: "u8 list"
  ev_comm :: "u8 list"

definition event_new :: "u64 \<Rightarrow> u64 \<Rightarrow> u64 \<Rightarrow> u32 \<Rightarrow> u32 \<Rightarrow> u8 \<Rightarrow> u8 list \<Rightarrow> event" where
  "event_new timestamp_ns duration_ns key pid tid event_type comm =
     \<lparr>ev_timestamp_ns = timestamp_ns, ev_duration_ns = duration_ns, ev_key = key,
      ev_pid = pid, ev_tid = tid, ev_event_type = event_type,
      ev_pad = [0, 0, 0], ev_comm = comm\<rparr>"

text \<open>The array lengths of the Rust type.\<close>

definition wf_event :: "event \<Rightarrow> bool" where
  "wf_event ev \<longleftrightarrow> length (ev_pad ev) = 3 \<and> length (ev_comm ev) = TASK_COMM_LEN"

section \<open>Its bytes\<close>

definition event_fields :: "field list" where
  "event_fields = [(8, 8), (8, 8), (8, 8), (4, 4), (4, 4), (1, 1), (3, 1), (TASK_COMM_LEN, 1)]"

definition event_bytes :: "(nat \<Rightarrow> u8) \<Rightarrow> event \<Rightarrow> u8 list" where
  "event_bytes pad ev =
     struct_bytes pad event_fields
       [le_bytes 8 (ev_timestamp_ns ev), le_bytes 8 (ev_duration_ns ev), le_bytes 8 (ev_key ev),
        le_bytes 4 (ev_pid ev), le_bytes 4 (ev_tid ev), le_bytes 1 (ev_event_type ev),
        ev_pad ev, ev_comm ev]"

definition event_of_bytes :: "u8 list \<Rightarrow> event" where
  "event_of_bytes bs =
     \<lparr>ev_timestamp_ns = le_word (field_bytes event_fields 0 bs),
      ev_duration_ns = le_word (field_bytes event_fields 1 bs),
      ev_key = le_word (field_bytes event_fields 2 bs),
      ev_pid = le_word (field_bytes event_fields 3 bs),
      ev_tid = le_word (field_bytes event_fields 4 bs),
      ev_event_type = le_word (field_bytes event_fields 5 bs),
      ev_pad = field_bytes event_fields 6 bs, ev_comm = field_bytes event_fields 7 bs\<rparr>"

section \<open>Block keys\<close>

definition pack_block_key :: "u32 \<Rightarrow> u64 \<Rightarrow> u64" where
  "pack_block_key dev sector = push_bit 32 (ucast dev) OR (sector AND 0xFFFFFFFF)"

definition unpack_block_key :: "u64 \<Rightarrow> u32 \<times> u32" where
  "unpack_block_key key = (ucast (drop_bit 32 key), ucast (key AND 0xFFFFFFFF))"

section \<open>Lemmas\<close>

interpretation event_struct: c_struct event_fields
  by unfold_locales (simp add: event_fields_def)

lemma event_layout:
  "offsets_of event_fields = [0, 8, 16, 24, 28, 32, 33, 36]" "size_of event_fields = 56"
  by (simp_all add: offsets_of_def size_of_def struct_align_def align_up_def event_fields_def
      TASK_COMM_LEN_def)

lemma wf_event_new [simp]:
  "wf_event (event_new ts d k p t ty c) \<longleftrightarrow> length c = TASK_COMM_LEN"
  by (simp add: wf_event_def event_new_def)

lemma event_new_sel [simp]:
  "ev_timestamp_ns (event_new ts d k p t ty c) = ts" "ev_duration_ns (event_new ts d k p t ty c) = d"
  "ev_key (event_new ts d k p t ty c) = k" "ev_pid (event_new ts d k p t ty c) = p"
  "ev_tid (event_new ts d k p t ty c) = t" "ev_event_type (event_new ts d k p t ty c) = ty"
  "ev_comm (event_new ts d k p t ty c) = c"
  by (simp_all add: event_new_def)

lemma event_field_sizes:
  "length event_fields = 8" "fst (event_fields ! 0) = 8" "fst (event_fields ! Suc 0) = 8"
  "fst (event_fields ! 2) = 8" "fst (event_fields ! 3) = 4" "fst (event_fields ! 4) = 4"
  "fst (event_fields ! 5) = 1" "fst (event_fields ! 6) = 3" "fst (event_fields ! 7) = TASK_COMM_LEN"
  by (simp_all add: event_fields_def)

lemma length_event_bytes [simp]: "length (event_bytes pad ev) = size_of event_fields"
  by (simp add: event_bytes_def)

lemma event_of_event_bytes: "wf_event ev \<Longrightarrow> event_of_bytes (event_bytes pad ev) = ev"
  by (simp add: event_of_bytes_def event_bytes_def wf_event_def event_struct.field_struct_bytes
      event_field_sizes)

lemma wf_event_of_bytes: "length bs = size_of event_fields \<Longrightarrow> wf_event (event_of_bytes bs)"
  by (simp add: event_of_bytes_def wf_event_def event_struct.length_field_bytes event_field_sizes)

lemma low32_mask: "(0xFFFFFFFF :: u64) = mask 32"
  by (simp add: mask_eq_exp_minus_1)

lemma bit_pack_block_key:
  "bit (pack_block_key dev sector) k \<longleftrightarrow>
     (if k < 32 then bit sector k else k < 64 \<and> bit dev (k - 32))"
  unfolding pack_block_key_def low32_mask
  by (auto simp: bit_or_iff bit_and_iff bit_push_bit_iff bit_mask_iff bit_ucast_iff
      dest: bit_imp_le_length)

lemma unpack_pack_block_key:
  "unpack_block_key (pack_block_key dev sector) = (dev, ucast sector)"
proof -
  have "ucast (drop_bit 32 (pack_block_key dev sector)) = dev"
    by (rule bit_word_eqI) (simp add: bit_ucast_iff bit_drop_bit_eq bit_pack_block_key)
  moreover have "ucast (pack_block_key dev sector AND 0xFFFFFFFF) = (ucast sector :: u32)"
    unfolding low32_mask
    by (rule bit_word_eqI) (simp add: bit_ucast_iff bit_and_iff bit_mask_iff bit_pack_block_key)
  ultimately show ?thesis by (simp add: unpack_block_key_def)
qed

lemma pack_unpack_block_key:
  "(case unpack_block_key key of (dev, sector) \<Rightarrow> pack_block_key dev (ucast sector)) = key"
  unfolding unpack_block_key_def low32_mask
  by (rule bit_word_eqI)
     (auto simp: bit_pack_block_key bit_ucast_iff bit_and_iff bit_mask_iff bit_drop_bit_eq)

lemma pack_block_key_eq_iff:
  "pack_block_key dev sector = pack_block_key dev' sector' \<longleftrightarrow>
     dev = dev' \<and> (ucast sector :: u32) = ucast sector'"
proof
  assume "pack_block_key dev sector = pack_block_key dev' sector'"
  then show "dev = dev' \<and> (ucast sector :: u32) = ucast sector'"
    using unpack_pack_block_key [of dev sector] unpack_pack_block_key [of dev' sector'] by simp
next
  assume eq: "dev = dev' \<and> (ucast sector :: u32) = ucast sector'"
  have "bit sector k = bit sector' k" if "k < 32" for k
    using that eq bit_ucast_iff [where 'a = 32, of sector k] bit_ucast_iff [where 'a = 32, of sector' k]
    by auto
  with eq show "pack_block_key dev sector = pack_block_key dev' sector'"
    by (intro bit_word_eqI) (simp add: bit_pack_block_key)
qed

lemma ucast_u32_eq_iff:
  "(ucast (a :: u64) :: u32) = ucast b \<longleftrightarrow> unat a mod 2 ^ 32 = unat b mod 2 ^ 32"
  by (simp add: word_unat_eq_iff unsigned_ucast_eq unsigned_take_bit_eq take_bit_eq_mod)

section \<open>Properties\<close>

text \<open>C28: Packing a device and a sector into a key and unpacking it gives back the device
  in full and the sector modulo 2^32; every key is the packing of what it unpacks to; and
  two requests share a key exactly when they are on the same device and their sectors
  agree modulo 2^32, so no collision happens below 2^32 sectors.\<close>

theorem block_key_lossless_below_2_32:
  "unpack_block_key (pack_block_key dev sector) = (dev, ucast sector)
   \<and> (case unpack_block_key key of (d, s) \<Rightarrow> pack_block_key d (ucast s)) = key
   \<and> (pack_block_key dev sector = pack_block_key dev' sector' \<longleftrightarrow>
        dev = dev' \<and> unat sector mod 2 ^ 32 = unat sector' mod 2 ^ 32)"
  by (simp only: unpack_pack_block_key pack_unpack_block_key pack_block_key_eq_iff
      ucast_u32_eq_iff simp_thms)

end
