(* ===== verification/Tracepoints.thy ===== *)
theory Tracepoints
  imports Repr_C
begin

text \<open>
  The kernel's raw tracepoint records as the probes see them
  (\<open>whyslow-ebpf/src/vmlinux.rs\<close>): one record per struct, its field list, and the read of
  a struct out of the tracepoint's memory (\<open>ctx.read_at(0)\<close>), which fails when the
  kernel refuses the probe read. The lemmas give the byte offsets the field order leads
  to and the round trip of every struct.
\<close>

section \<open>Records\<close>

record TraceEntry =
  kind :: u16
  flags :: u8
  preempt_count :: u8
  ent_pid :: i32

record TraceEventRawSchedSwitch =
  ss_ent :: TraceEntry
  prev_comm :: "u8 list"
  prev_pid :: i32
  prev_prio :: i32
  prev_state :: i64
  next_comm :: "u8 list"
  next_pid :: i32
  next_prio :: i32

record TraceEventRawSysEnter =
  se_ent :: TraceEntry
  se_id :: i64
  se_args :: "u64 list"

record TraceEventRawSysExit =
  sx_ent :: TraceEntry
  sx_id :: i64
  sx_ret :: i64

record TraceEventRawBlockRq =
  rq_ent :: TraceEntry
  rq_dev :: u32
  rq_sector :: u64
  rq_nr_sector :: u32
  rq_bytes :: u32
  rq_ioprio :: u16
  rq_rwbs :: "u8 list"
  rq_comm :: "u8 list"
  rq_data_loc_cmd :: u32

record TraceEventRawBlockRqCompletion =
  rc_ent :: TraceEntry
  rc_dev :: u32
  rc_sector :: u64
  rc_nr_sector :: u32
  rc_error :: i32
  rc_ioprio :: u16
  rc_rwbs :: "u8 list"
  rc_data_loc_cmd :: u32

section \<open>Field lists\<close>

definition trace_entry_fields :: "field list" where
  "trace_entry_fields = [(2, 2), (1, 1), (1, 1), (4, 4)]"

text \<open>A nested struct is a field of its own size and alignment.\<close>

definition ent_field :: field where
  "ent_field = (size_of trace_entry_fields, struct_align trace_entry_fields)"

definition sched_switch_fields :: "field list" where
  "sched_switch_fields =
     [ent_field, (16, 1), (4, 4), (4, 4), (8, 8), (16, 1), (4, 4), (4, 4)]"

definition sys_enter_fields :: "field list" where
  "sys_enter_fields = [ent_field, (8, 8), (48, 8)]"

definition sys_exit_fields :: "field list" where
  "sys_exit_fields = [ent_field, (8, 8), (8, 8)]"

definition block_rq_fields :: "field list" where
  "block_rq_fields =
     [ent_field, (4, 4), (8, 8), (4, 4), (4, 4), (2, 2), (10, 1), (16, 1), (4, 4)]"

definition block_rq_completion_fields :: "field list" where
  "block_rq_completion_fields =
     [ent_field, (4, 4), (8, 8), (4, 4), (4, 4), (2, 2), (10, 1), (4, 4)]"

section \<open>Reading a struct from memory\<close>

definition trace_entry_of :: "u8 list \<Rightarrow> TraceEntry" where
  "trace_entry_of bs =
     (let f = (\<lambda>i. field_bytes trace_entry_fields i bs) in
      \<lparr>kind = le_word (f 0), flags = le_word (f 1), preempt_count = le_word (f 2),
       ent_pid = le_word (f 3)\<rparr>)"

definition sched_switch_of :: "u8 list \<Rightarrow> TraceEventRawSchedSwitch" where
  "sched_switch_of bs =
     (let f = (\<lambda>i. field_bytes sched_switch_fields i bs) in
      \<lparr>ss_ent = trace_entry_of (f 0), prev_comm = f 1, prev_pid = le_word (f 2),
       prev_prio = le_word (f 3), prev_state = le_word (f 4), next_comm = f 5,
       next_pid = le_word (f 6), next_prio = le_word (f 7)\<rparr>)"

definition sys_enter_of :: "u8 list \<Rightarrow> TraceEventRawSysEnter" where
  "sys_enter_of bs =
     (let f = (\<lambda>i. field_bytes sys_enter_fields i bs) in
      \<lparr>se_ent = trace_entry_of (f 0), se_id = le_word (f 1),
       se_args = map (\<lambda>j. le_word (byte_slice (8 * j) 8 (f 2))) [0..<6]\<rparr>)"

definition sys_exit_of :: "u8 list \<Rightarrow> TraceEventRawSysExit" where
  "sys_exit_of bs =
     (let f = (\<lambda>i. field_bytes sys_exit_fields i bs) in
      \<lparr>sx_ent = trace_entry_of (f 0), sx_id = le_word (f 1), sx_ret = le_word (f 2)\<rparr>)"

definition block_rq_of :: "u8 list \<Rightarrow> TraceEventRawBlockRq" where
  "block_rq_of bs =
     (let f = (\<lambda>i. field_bytes block_rq_fields i bs) in
      \<lparr>rq_ent = trace_entry_of (f 0), rq_dev = le_word (f 1), rq_sector = le_word (f 2),
       rq_nr_sector = le_word (f 3), rq_bytes = le_word (f 4), rq_ioprio = le_word (f 5),
       rq_rwbs = f 6, rq_comm = f 7, rq_data_loc_cmd = le_word (f 8)\<rparr>)"

definition block_rq_completion_of :: "u8 list \<Rightarrow> TraceEventRawBlockRqCompletion" where
  "block_rq_completion_of bs =
     (let f = (\<lambda>i. field_bytes block_rq_completion_fields i bs) in
      \<lparr>rc_ent = trace_entry_of (f 0), rc_dev = le_word (f 1), rc_sector = le_word (f 2),
       rc_nr_sector = le_word (f 3), rc_error = le_word (f 4), rc_ioprio = le_word (f 5),
       rc_rwbs = f 6, rc_data_loc_cmd = le_word (f 7)\<rparr>)"

text \<open>
  \<open>read_at(0)\<close> copies \<open>size_of::<T>()\<close> bytes out of the tracepoint's memory. \<open>mem\<close> is
  what the kernel lets the program read: \<^const>\<open>None\<close> when the probe read faults.
\<close>

definition read_at :: "field list \<Rightarrow> (u8 list \<Rightarrow> 'e) \<Rightarrow> u8 list option \<Rightarrow> 'e option" where
  "read_at fs parse mem =
     (case mem of
        None \<Rightarrow> None
      | Some bs \<Rightarrow> if size_of fs \<le> length bs then Some (parse (take (size_of fs) bs)) else None)"

text \<open>The bytes of a struct as the kernel lays it out, with any padding.\<close>

definition trace_entry_bytes :: "(nat \<Rightarrow> u8) \<Rightarrow> TraceEntry \<Rightarrow> u8 list" where
  "trace_entry_bytes pad e = struct_bytes pad trace_entry_fields
     [le_bytes 2 (kind e), le_bytes 1 (flags e), le_bytes 1 (preempt_count e), le_bytes 4 (ent_pid e)]"

definition sched_switch_bytes :: "(nat \<Rightarrow> u8) \<Rightarrow> TraceEventRawSchedSwitch \<Rightarrow> u8 list" where
  "sched_switch_bytes pad e = struct_bytes pad sched_switch_fields
     [trace_entry_bytes pad (ss_ent e), prev_comm e, le_bytes 4 (prev_pid e),
      le_bytes 4 (prev_prio e), le_bytes 8 (prev_state e), next_comm e,
      le_bytes 4 (next_pid e), le_bytes 4 (next_prio e)]"

definition sys_enter_bytes :: "(nat \<Rightarrow> u8) \<Rightarrow> TraceEventRawSysEnter \<Rightarrow> u8 list" where
  "sys_enter_bytes pad e = struct_bytes pad sys_enter_fields
     [trace_entry_bytes pad (se_ent e), le_bytes 8 (se_id e), concat (map (le_bytes 8) (se_args e))]"

definition sys_exit_bytes :: "(nat \<Rightarrow> u8) \<Rightarrow> TraceEventRawSysExit \<Rightarrow> u8 list" where
  "sys_exit_bytes pad e = struct_bytes pad sys_exit_fields
     [trace_entry_bytes pad (sx_ent e), le_bytes 8 (sx_id e), le_bytes 8 (sx_ret e)]"

definition block_rq_bytes :: "(nat \<Rightarrow> u8) \<Rightarrow> TraceEventRawBlockRq \<Rightarrow> u8 list" where
  "block_rq_bytes pad e = struct_bytes pad block_rq_fields
     [trace_entry_bytes pad (rq_ent e), le_bytes 4 (rq_dev e), le_bytes 8 (rq_sector e),
      le_bytes 4 (rq_nr_sector e), le_bytes 4 (rq_bytes e), le_bytes 2 (rq_ioprio e),
      rq_rwbs e, rq_comm e, le_bytes 4 (rq_data_loc_cmd e)]"

definition block_rq_completion_bytes ::
  "(nat \<Rightarrow> u8) \<Rightarrow> TraceEventRawBlockRqCompletion \<Rightarrow> u8 list" where
  "block_rq_completion_bytes pad e = struct_bytes pad block_rq_completion_fields
     [trace_entry_bytes pad (rc_ent e), le_bytes 4 (rc_dev e), le_bytes 8 (rc_sector e),
      le_bytes 4 (rc_nr_sector e), le_bytes 4 (rc_error e), le_bytes 2 (rc_ioprio e),
      rc_rwbs e, le_bytes 4 (rc_data_loc_cmd e)]"

section \<open>Futex operations and task states\<close>

named_theorems uapi_defs \<open>kernel constants\<close>

definition FUTEX_WAIT :: u32 where [uapi_defs]: "FUTEX_WAIT = 0"
definition FUTEX_WAKE :: u32 where [uapi_defs]: "FUTEX_WAKE = 1"
definition FUTEX_WAIT_BITSET :: u32 where [uapi_defs]: "FUTEX_WAIT_BITSET = 9"
definition FUTEX_WAKE_BITSET :: u32 where [uapi_defs]: "FUTEX_WAKE_BITSET = 10"
definition FUTEX_PRIVATE_FLAG :: u32 where [uapi_defs]: "FUTEX_PRIVATE_FLAG = 128"
definition FUTEX_CLOCK_REALTIME :: u32 where [uapi_defs]: "FUTEX_CLOCK_REALTIME = 256"
definition FUTEX_CMD_MASK :: u32 where
  [uapi_defs]: "FUTEX_CMD_MASK = NOT (FUTEX_PRIVATE_FLAG OR FUTEX_CLOCK_REALTIME)"

definition TASK_RUNNING :: i64 where [uapi_defs]: "TASK_RUNNING = 0"

section \<open>Lemmas\<close>

lemmas tracepoint_fields = trace_entry_fields_def ent_field_def sched_switch_fields_def
  sys_enter_fields_def sys_exit_fields_def block_rq_fields_def block_rq_completion_fields_def

lemmas layout_defs = offsets_of_def size_of_def struct_align_def align_up_def

lemma ent_field: "ent_field = (8, 4)"
  by (simp add: ent_field_def trace_entry_fields_def layout_defs)

interpretation trace_entry_struct: c_struct trace_entry_fields
  by unfold_locales (simp add: trace_entry_fields_def)
interpretation sched_switch_struct: c_struct sched_switch_fields
  by unfold_locales (simp add: sched_switch_fields_def ent_field)
interpretation sys_enter_struct: c_struct sys_enter_fields
  by unfold_locales (simp add: sys_enter_fields_def ent_field)
interpretation sys_exit_struct: c_struct sys_exit_fields
  by unfold_locales (simp add: sys_exit_fields_def ent_field)
interpretation block_rq_struct: c_struct block_rq_fields
  by unfold_locales (simp add: block_rq_fields_def ent_field)
interpretation block_rq_completion_struct: c_struct block_rq_completion_fields
  by unfold_locales (simp add: block_rq_completion_fields_def ent_field)

lemma sched_switch_layout:
  "offsets_of sched_switch_fields = [0, 8, 24, 28, 32, 40, 56, 60]"
  "size_of sched_switch_fields = 64"
  by (simp_all add: sched_switch_fields_def ent_field layout_defs)

lemma sys_enter_layout:
  "offsets_of sys_enter_fields = [0, 8, 16]" "size_of sys_enter_fields = 64"
  by (simp_all add: sys_enter_fields_def ent_field layout_defs)

lemma sys_exit_layout:
  "offsets_of sys_exit_fields = [0, 8, 16]" "size_of sys_exit_fields = 24"
  by (simp_all add: sys_exit_fields_def ent_field layout_defs)

lemma block_rq_layout:
  "offsets_of block_rq_fields = [0, 8, 16, 24, 28, 32, 34, 44, 60]" "size_of block_rq_fields = 64"
  by (simp_all add: block_rq_fields_def ent_field layout_defs)

lemma block_rq_completion_layout:
  "offsets_of block_rq_completion_fields = [0, 8, 16, 24, 28, 32, 34, 44]"
  "size_of block_rq_completion_fields = 48"
  by (simp_all add: block_rq_completion_fields_def ent_field layout_defs)

lemma read_at_struct_bytes:
  "length bs = size_of fs \<Longrightarrow> read_at fs parse (Some bs) = Some (parse bs)"
  by (simp add: read_at_def)

lemma trace_entry_field_sizes:
  "length trace_entry_fields = 4" "fst (trace_entry_fields ! 0) = 2"
  "fst (trace_entry_fields ! Suc 0) = 1" "fst (trace_entry_fields ! 2) = 1"
  "fst (trace_entry_fields ! 3) = 4"
  by (simp_all add: trace_entry_fields_def)

lemma size_of_trace_entry: "size_of trace_entry_fields = 8"
  by (simp add: trace_entry_fields_def layout_defs)

lemma trace_entry_roundtrip: "trace_entry_of (trace_entry_bytes pad e) = e"
  by (simp add: trace_entry_of_def trace_entry_bytes_def Let_def
      trace_entry_struct.field_struct_bytes trace_entry_field_sizes)

lemma length_trace_entry_bytes: "length (trace_entry_bytes pad e) = 8"
  by (simp add: trace_entry_bytes_def size_of_trace_entry)

lemma sched_switch_field_sizes:
  "length sched_switch_fields = 8" "fst (sched_switch_fields ! 0) = 8"
  "fst (sched_switch_fields ! Suc 0) = 16" "fst (sched_switch_fields ! 2) = 4"
  "fst (sched_switch_fields ! 3) = 4" "fst (sched_switch_fields ! 4) = 8"
  "fst (sched_switch_fields ! 5) = 16" "fst (sched_switch_fields ! 6) = 4"
  "fst (sched_switch_fields ! 7) = 4"
  by (simp_all add: sched_switch_fields_def ent_field)

lemma sched_switch_roundtrip:
  assumes "length (prev_comm e) = 16" and "length (next_comm e) = 16"
  shows "read_at sched_switch_fields sched_switch_of (Some (sched_switch_bytes pad e)) = Some e"
proof -
  have "sched_switch_of (sched_switch_bytes pad e) = e"
    using assms by (simp add: sched_switch_of_def sched_switch_bytes_def Let_def
        sched_switch_struct.field_struct_bytes sched_switch_field_sizes trace_entry_roundtrip
        length_trace_entry_bytes)
  then show ?thesis by (simp add: read_at_struct_bytes sched_switch_bytes_def)
qed

lemma sys_enter_field_sizes:
  "length sys_enter_fields = 3" "fst (sys_enter_fields ! 0) = 8"
  "fst (sys_enter_fields ! Suc 0) = 8" "fst (sys_enter_fields ! 2) = 48"
  by (simp_all add: sys_enter_fields_def ent_field)

lemma sys_enter_roundtrip:
  assumes "length (se_args e) = 6"
  shows "read_at sys_enter_fields sys_enter_of (Some (sys_enter_bytes pad e)) = Some e"
proof -
  have len: "length (concat (map (le_bytes 8) (se_args e))) = 48"
    using assms by (simp add: length_concat comp_def sum_list_triv)
  have "map (\<lambda>j. le_word (byte_slice (8 * j) 8 (concat (map (le_bytes 8) (se_args e))))) [0..<6]
      = se_args e"
    using assms by (intro nth_equalityI) (simp_all add: byte_slice_concat)
  then have "sys_enter_of (sys_enter_bytes pad e) = e"
    using len by (simp add: sys_enter_of_def sys_enter_bytes_def Let_def
        sys_enter_struct.field_struct_bytes sys_enter_field_sizes trace_entry_roundtrip
        length_trace_entry_bytes)
  then show ?thesis by (simp add: read_at_struct_bytes sys_enter_bytes_def)
qed

lemma sys_exit_field_sizes:
  "length sys_exit_fields = 3" "fst (sys_exit_fields ! 0) = 8"
  "fst (sys_exit_fields ! Suc 0) = 8" "fst (sys_exit_fields ! 2) = 8"
  by (simp_all add: sys_exit_fields_def ent_field)

lemma sys_exit_roundtrip:
  "read_at sys_exit_fields sys_exit_of (Some (sys_exit_bytes pad e)) = Some e"
proof -
  have "sys_exit_of (sys_exit_bytes pad e) = e"
    by (simp add: sys_exit_of_def sys_exit_bytes_def Let_def sys_exit_struct.field_struct_bytes
        sys_exit_field_sizes trace_entry_roundtrip length_trace_entry_bytes)
  then show ?thesis by (simp add: read_at_struct_bytes sys_exit_bytes_def)
qed

lemma block_rq_field_sizes:
  "length block_rq_fields = 9" "fst (block_rq_fields ! 0) = 8" "fst (block_rq_fields ! Suc 0) = 4"
  "fst (block_rq_fields ! 2) = 8" "fst (block_rq_fields ! 3) = 4" "fst (block_rq_fields ! 4) = 4"
  "fst (block_rq_fields ! 5) = 2" "fst (block_rq_fields ! 6) = 10" "fst (block_rq_fields ! 7) = 16"
  "fst (block_rq_fields ! 8) = 4"
  by (simp_all add: block_rq_fields_def ent_field)

lemma block_rq_roundtrip:
  assumes "length (rq_rwbs e) = 10" and "length (rq_comm e) = 16"
  shows "read_at block_rq_fields block_rq_of (Some (block_rq_bytes pad e)) = Some e"
proof -
  have "block_rq_of (block_rq_bytes pad e) = e"
    using assms by (simp add: block_rq_of_def block_rq_bytes_def Let_def
        block_rq_struct.field_struct_bytes block_rq_field_sizes trace_entry_roundtrip
        length_trace_entry_bytes)
  then show ?thesis by (simp add: read_at_struct_bytes block_rq_bytes_def)
qed

lemma block_rq_completion_field_sizes:
  "length block_rq_completion_fields = 8" "fst (block_rq_completion_fields ! 0) = 8"
  "fst (block_rq_completion_fields ! Suc 0) = 4" "fst (block_rq_completion_fields ! 2) = 8"
  "fst (block_rq_completion_fields ! 3) = 4" "fst (block_rq_completion_fields ! 4) = 4"
  "fst (block_rq_completion_fields ! 5) = 2" "fst (block_rq_completion_fields ! 6) = 10"
  "fst (block_rq_completion_fields ! 7) = 4"
  by (simp_all add: block_rq_completion_fields_def ent_field)

lemma block_rq_completion_roundtrip:
  assumes "length (rc_rwbs e) = 10"
  shows "read_at block_rq_completion_fields block_rq_completion_of
      (Some (block_rq_completion_bytes pad e)) = Some e"
proof -
  have "block_rq_completion_of (block_rq_completion_bytes pad e) = e"
    using assms by (simp add: block_rq_completion_of_def block_rq_completion_bytes_def Let_def
        block_rq_completion_struct.field_struct_bytes block_rq_completion_field_sizes
        trace_entry_roundtrip length_trace_entry_bytes)
  then show ?thesis by (simp add: read_at_struct_bytes block_rq_completion_bytes_def)
qed

lemma read_at_Some:
  assumes "read_at fs parse mem = Some e"
  obtains bs where "length bs = size_of fs" and "e = parse bs"
  using assms that [of "take (size_of fs) (the mem)"]
  by (auto simp: read_at_def split: option.splits if_splits)

lemma length_prev_comm:
  assumes "read_at sched_switch_fields sched_switch_of mem = Some evt"
  shows "length (prev_comm evt) = 16"
proof -
  obtain bs where "length bs = size_of sched_switch_fields" "evt = sched_switch_of bs"
    using assms by (rule read_at_Some)
  then show ?thesis
    using sched_switch_struct.length_field_bytes [of 1 bs]
    by (simp add: sched_switch_of_def sched_switch_fields_def)
qed

text \<open>
  Masking the operation keeps the command: the private and clock flags change nothing.
\<close>

lemma futex_flags_masked:
  "(op OR FUTEX_PRIVATE_FLAG) AND FUTEX_CMD_MASK = op AND FUTEX_CMD_MASK"
  "(op OR FUTEX_CLOCK_REALTIME) AND FUTEX_CMD_MASK = op AND FUTEX_CMD_MASK"
  unfolding FUTEX_CMD_MASK_def by (simp_all add: bit.conj_disj_distrib2 and.assoc [symmetric])
     (auto intro!: bit_word_eqI simp: bit_simps)

section \<open>Properties\<close>

text \<open>C27: The mirrored structs have the kernel's layout and read back field for field: the byte
  offsets and sizes are those of the tracepoint formats, and reading a record the kernel laid
  out, with any padding and any bytes after it, gives that record.\<close>

theorem tracepoint_records_read_back:
  assumes "length (prev_comm sw) = 16" "length (next_comm sw) = 16" "length (se_args en) = 6"
    and "length (rq_rwbs rq) = 10" "length (rq_comm rq) = 16" "length (rc_rwbs rc) = 10"
  shows "offsets_of sched_switch_fields = [0, 8, 24, 28, 32, 40, 56, 60]
    \<and> offsets_of sys_enter_fields = [0, 8, 16]
    \<and> offsets_of block_rq_fields = [0, 8, 16, 24, 28, 32, 34, 44, 60]
    \<and> offsets_of block_rq_completion_fields = [0, 8, 16, 24, 28, 32, 34, 44]
    \<and> read_at sched_switch_fields sched_switch_of (Some (sched_switch_bytes pad sw @ rest)) = Some sw
    \<and> read_at sys_enter_fields sys_enter_of (Some (sys_enter_bytes pad en @ rest)) = Some en
    \<and> read_at block_rq_fields block_rq_of (Some (block_rq_bytes pad rq @ rest)) = Some rq
    \<and> read_at block_rq_completion_fields block_rq_completion_of
         (Some (block_rq_completion_bytes pad rc @ rest)) = Some rc"
proof -
  have more: "read_at fs parse (Some (bs @ rest)) = read_at fs parse (Some bs)"
    if "length bs = size_of fs" for fs bs and parse :: "u8 list \<Rightarrow> 'e"
    using that by (simp add: read_at_def)
  have "read_at sched_switch_fields sched_switch_of (Some (sched_switch_bytes pad sw @ rest)) = Some sw"
    using sched_switch_roundtrip [OF assms(1,2)] by (subst more) (simp_all add: sched_switch_bytes_def)
  moreover have "read_at sys_enter_fields sys_enter_of (Some (sys_enter_bytes pad en @ rest)) = Some en"
    using sys_enter_roundtrip [OF assms(3)] by (subst more) (simp_all add: sys_enter_bytes_def)
  moreover have "read_at block_rq_fields block_rq_of (Some (block_rq_bytes pad rq @ rest)) = Some rq"
    using block_rq_roundtrip [OF assms(4,5)] by (subst more) (simp_all add: block_rq_bytes_def)
  moreover have "read_at block_rq_completion_fields block_rq_completion_of
      (Some (block_rq_completion_bytes pad rc @ rest)) = Some rc"
    using block_rq_completion_roundtrip [OF assms(6)]
    by (subst more) (simp_all add: block_rq_completion_bytes_def)
  ultimately show ?thesis
    by (simp only: sched_switch_layout sys_enter_layout block_rq_layout block_rq_completion_layout simp_thms)
qed

definition ex_header :: TraceEntry where
  "ex_header = \<lparr>kind = 1, flags = 0, preempt_count = 0, ent_pid = 7\<rparr>"

theorem tracepoint_records_read_back_witness:
  "read_at sys_enter_fields sys_enter_of (Some (sys_enter_bytes (\<lambda>_. 0xAA)
     \<lparr>se_ent = ex_header, se_id = 202, se_args = [0xABC, 128, 2, 0, 0, 0]\<rparr> @ [1, 2])) =
   Some \<lparr>se_ent = ex_header, se_id = 202, se_args = [0xABC, 128, 2, 0, 0, 0]\<rparr>"
  using tracepoint_records_read_back
    [where pad = "\<lambda>_. 0xAA" and rest = "[1, 2]"
      and sw = "\<lparr>ss_ent = ex_header, prev_comm = replicate 16 98, prev_pid = 1, prev_prio = 0, prev_state = 1,
        next_comm = replicate 16 99, next_pid = 2, next_prio = 0\<rparr>"
      and en = "\<lparr>se_ent = ex_header, se_id = 202, se_args = [0xABC, 128, 2, 0, 0, 0]\<rparr>"
      and rq = "\<lparr>rq_ent = ex_header, rq_dev = 1, rq_sector = 2, rq_nr_sector = 8, rq_bytes = 4096, rq_ioprio = 0,
        rq_rwbs = replicate 10 82, rq_comm = replicate 16 98, rq_data_loc_cmd = 0\<rparr>"
      and rc = "\<lparr>rc_ent = ex_header, rc_dev = 1, rc_sector = 2, rc_nr_sector = 8, rc_error = 0, rc_ioprio = 0,
        rc_rwbs = replicate 10 82, rc_data_loc_cmd = 0\<rparr>"]
  by simp

end
