(* ===== verification/Probes.thy ===== *)
theory Probes
  imports Event_Schema Tracepoints
begin

text \<open>
  The five eBPF programs (\<open>whyslow-ebpf/src/main.rs\<close>) over the maps they share. What a
  program gets from the kernel during one invocation (the tracepoint's memory, the
  current pid/tgid, clock and comm, whether a map insertion and a ring reservation
  succeed, the content of struct padding) is its context \<open>bpf_ctx\<close>; every statement
  below holds for all contexts. One invocation is one atomic step; the steps of the
  five programs, of the user space writing the target and of the consumer interleave
  in any order.

  The three in-flight maps follow one discipline, stated as the locale \<open>span_source\<close>
  and interpreted for each of them: a span opened by one program stays open until the
  program that closes it fires for the same key, and then exactly one record with the
  elapsed time is reserved for it.
\<close>

section \<open>Maps and contexts\<close>

record BlockStart =
  bs_ts :: u64
  bs_tgid :: u32
  bs_comm :: "u8 list"

record FutexStart =
  fs_ts :: u64
  fs_uaddr :: u64
  fs_op :: u32
  fs_tgid :: u32
  fs_comm :: "u8 list"

record BlockIoStart =
  io_ts :: u64
  io_tgid :: u32
  io_tid :: u32
  io_comm :: "u8 list"

record bpf_maps =
  EVENTS :: "u8 list list"
  TARGET_TGID :: "u32 list"
  BLOCK_START :: "u32 \<rightharpoonup> BlockStart"
  FUTEX_START :: "u32 \<rightharpoonup> FutexStart"
  BLOCKIO_START :: "u64 \<rightharpoonup> BlockIoStart"

definition bpf_init :: bpf_maps where
  "bpf_init = \<lparr>EVENTS = [], TARGET_TGID = [0], BLOCK_START = Map.empty,
     FUTEX_START = Map.empty, BLOCKIO_START = Map.empty\<rparr>"

record bpf_ctx =
  cx_mem :: "u8 list option"
  cx_pid_tgid :: u64
  cx_ktime :: u64
  cx_comm :: "u8 list option"
  cx_insert_ok :: bool
  cx_reserve_ok :: bool
  cx_pad :: "nat \<Rightarrow> u8"

text \<open>The kernel returns a comm of the array's length.\<close>

definition wf_ctx :: "bpf_ctx \<Rightarrow> bool" where
  "wf_ctx ctx \<longleftrightarrow> (case cx_comm ctx of None \<Rightarrow> True | Some c \<Rightarrow> length c = TASK_COMM_LEN)"

section \<open>Helpers\<close>

definition target_tgid :: "bpf_maps \<Rightarrow> u32" where
  "target_tgid s = (case TARGET_TGID s of [] \<Rightarrow> 0 | t # _ \<Rightarrow> t)"

definition current_tgid :: "bpf_ctx \<Rightarrow> u32" where
  "current_tgid ctx = ucast (drop_bit 32 (cx_pid_tgid ctx))"

definition current_tid :: "bpf_ctx \<Rightarrow> u32" where
  "current_tid ctx = ucast (cx_pid_tgid ctx AND 0xFFFFFFFF)"

definition current_comm :: "bpf_ctx \<Rightarrow> u8 list" where
  "current_comm ctx = (case cx_comm ctx of None \<Rightarrow> replicate 16 0 | Some c \<Rightarrow> c)"

definition map_insert :: "bpf_ctx \<Rightarrow> 'k \<Rightarrow> 'v \<Rightarrow> ('k \<rightharpoonup> 'v) \<Rightarrow> ('k \<rightharpoonup> 'v)" where
  "map_insert ctx k v m = (if cx_insert_ok ctx then m(k \<mapsto> v) else m)"

definition map_remove :: "'k \<Rightarrow> ('k \<rightharpoonup> 'v) \<Rightarrow> ('k \<rightharpoonup> 'v)" where
  "map_remove k m = m(k := None)"

definition emit :: "bpf_ctx \<Rightarrow> event \<Rightarrow> bpf_maps \<Rightarrow> bpf_maps" where
  "emit ctx ev s =
     (if cx_reserve_ok ctx then s\<lparr>EVENTS := EVENTS s @ [event_bytes (cx_pad ctx) ev]\<rparr> else s)"

section \<open>The programs\<close>

text \<open>Results are \<open>Result<u32, u32>\<close>: \<^const>\<open>Inl\<close> for \<open>Err\<close>, \<^const>\<open>Inr\<close> for \<open>Ok\<close>.\<close>

definition try_sched_switch :: "bpf_ctx \<Rightarrow> bpf_maps \<Rightarrow> (u32 + u32) \<times> bpf_maps" where
  "try_sched_switch ctx s =
     (let target = target_tgid s in
      if target = 0 then (Inr 0, s)
      else case read_at sched_switch_fields sched_switch_of (cx_mem ctx) of
        None \<Rightarrow> (Inl 1, s)
      | Some evt \<Rightarrow>
          (let ts = cx_ktime ctx;
               prev_tid = prev_pid evt;
               next_tid = next_pid evt;
               s1 = (if prev_state evt \<noteq> TASK_RUNNING then
                       let prev_tgid = current_tgid ctx in
                       if prev_tgid = target then
                         s\<lparr>BLOCK_START := map_insert ctx prev_tid
                              \<lparr>bs_ts = ts, bs_tgid = prev_tgid, bs_comm = prev_comm evt\<rparr>
                              (BLOCK_START s)\<rparr>
                       else s
                     else s)
           in case BLOCK_START s1 next_tid of
                None \<Rightarrow> (Inr 0, s1)
              | Some start \<Rightarrow>
                  (let s2 = s1\<lparr>BLOCK_START := map_remove next_tid (BLOCK_START s1)\<rparr>;
                       duration = saturating_sub ts (bs_ts start)
                   in (Inr 0, emit ctx (event_new ts duration 0 (bs_tgid start) next_tid
                                EVENT_SCHED_BLOCK (bs_comm start)) s2))))"

definition try_futex_enter :: "bpf_ctx \<Rightarrow> bpf_maps \<Rightarrow> (u32 + u32) \<times> bpf_maps" where
  "try_futex_enter ctx s =
     (let target = target_tgid s; tgid = current_tgid ctx in
      if target = 0 \<or> tgid \<noteq> target then (Inr 0, s)
      else case read_at sys_enter_fields sys_enter_of (cx_mem ctx) of
        None \<Rightarrow> (Inl 1, s)
      | Some evt \<Rightarrow>
          (let uaddr = se_args evt ! 0;
               op = ucast (se_args evt ! 1);
               tid = current_tid ctx;
               comm = current_comm ctx;
               ts = cx_ktime ctx
           in (Inr 0, s\<lparr>FUTEX_START := map_insert ctx tid
                 \<lparr>fs_ts = ts, fs_uaddr = uaddr, fs_op = op, fs_tgid = tgid, fs_comm = comm\<rparr>
                 (FUTEX_START s)\<rparr>)))"

definition futex_event_type :: "u32 \<Rightarrow> u8 option" where
  "futex_event_type op =
     (let base_op = op AND FUTEX_CMD_MASK in
      if base_op = FUTEX_WAIT \<or> base_op = FUTEX_WAIT_BITSET then Some EVENT_FUTEX_WAIT
      else if base_op = FUTEX_WAKE \<or> base_op = FUTEX_WAKE_BITSET then Some EVENT_FUTEX_WAKE
      else None)"

definition try_futex_exit :: "bpf_ctx \<Rightarrow> bpf_maps \<Rightarrow> (u32 + u32) \<times> bpf_maps" where
  "try_futex_exit ctx s =
     (let tid = current_tid ctx in
      case FUTEX_START s tid of
        None \<Rightarrow> (Inr 0, s)
      | Some start \<Rightarrow>
          (let s1 = s\<lparr>FUTEX_START := map_remove tid (FUTEX_START s)\<rparr>;
               ts = cx_ktime ctx;
               duration = saturating_sub ts (fs_ts start)
           in case futex_event_type (fs_op start) of
                None \<Rightarrow> (Inr 0, s1)
              | Some event_type \<Rightarrow>
                  (Inr 0, emit ctx (event_new ts duration (fs_uaddr start) (fs_tgid start) tid
                            event_type (fs_comm start)) s1)))"

definition try_block_rq_issue :: "bpf_ctx \<Rightarrow> bpf_maps \<Rightarrow> (u32 + u32) \<times> bpf_maps" where
  "try_block_rq_issue ctx s =
     (let target = target_tgid s; tgid = current_tgid ctx in
      if target = 0 \<or> tgid \<noteq> target then (Inr 0, s)
      else case read_at block_rq_fields block_rq_of (cx_mem ctx) of
        None \<Rightarrow> (Inl 1, s)
      | Some evt \<Rightarrow>
          (let tid = current_tid ctx;
               comm = current_comm ctx;
               ts = cx_ktime ctx;
               key = pack_block_key (rq_dev evt) (rq_sector evt)
           in (Inr 0, s\<lparr>BLOCKIO_START := map_insert ctx key
                 \<lparr>io_ts = ts, io_tgid = tgid, io_tid = tid, io_comm = comm\<rparr>
                 (BLOCKIO_START s)\<rparr>)))"

definition try_block_rq_complete :: "bpf_ctx \<Rightarrow> bpf_maps \<Rightarrow> (u32 + u32) \<times> bpf_maps" where
  "try_block_rq_complete ctx s =
     (case read_at block_rq_completion_fields block_rq_completion_of (cx_mem ctx) of
        None \<Rightarrow> (Inl 1, s)
      | Some evt \<Rightarrow>
          (let key = pack_block_key (rc_dev evt) (rc_sector evt) in
           case BLOCKIO_START s key of
             None \<Rightarrow> (Inr 0, s)
           | Some start \<Rightarrow>
               (let s1 = s\<lparr>BLOCKIO_START := map_remove key (BLOCKIO_START s)\<rparr>;
                    ts = cx_ktime ctx;
                    duration = saturating_sub ts (io_ts start)
                in (Inr 0, emit ctx (event_new ts duration key (io_tgid start) (io_tid start)
                             EVENT_BLOCK_IO (io_comm start)) s1))))"

text \<open>The entry points return the code of either branch.\<close>

definition merge_ret :: "(u32 + u32) \<times> bpf_maps \<Rightarrow> u32 \<times> bpf_maps" where
  "merge_ret r = (case r of (Inl ret, s) \<Rightarrow> (ret, s) | (Inr ret, s) \<Rightarrow> (ret, s))"

definition sched_switch :: "bpf_ctx \<Rightarrow> bpf_maps \<Rightarrow> u32 \<times> bpf_maps" where
  "sched_switch ctx s = merge_ret (try_sched_switch ctx s)"

definition futex_enter :: "bpf_ctx \<Rightarrow> bpf_maps \<Rightarrow> u32 \<times> bpf_maps" where
  "futex_enter ctx s = merge_ret (try_futex_enter ctx s)"

definition futex_exit :: "bpf_ctx \<Rightarrow> bpf_maps \<Rightarrow> u32 \<times> bpf_maps" where
  "futex_exit ctx s = merge_ret (try_futex_exit ctx s)"

definition block_rq_issue :: "bpf_ctx \<Rightarrow> bpf_maps \<Rightarrow> u32 \<times> bpf_maps" where
  "block_rq_issue ctx s = merge_ret (try_block_rq_issue ctx s)"

definition block_rq_complete :: "bpf_ctx \<Rightarrow> bpf_maps \<Rightarrow> u32 \<times> bpf_maps" where
  "block_rq_complete ctx s = merge_ret (try_block_rq_complete ctx s)"

section \<open>Interleavings\<close>

datatype probe = Sched_switch | Futex_enter | Futex_exit | Block_rq_issue | Block_rq_complete

fun run_probe :: "probe \<Rightarrow> bpf_ctx \<Rightarrow> bpf_maps \<Rightarrow> u32 \<times> bpf_maps" where
  "run_probe Sched_switch = sched_switch"
| "run_probe Futex_enter = futex_enter"
| "run_probe Futex_exit = futex_exit"
| "run_probe Block_rq_issue = block_rq_issue"
| "run_probe Block_rq_complete = block_rq_complete"

text \<open>
  A step of the whole: a program fires, user space writes slot 0 of the target map, or
  the consumer takes the oldest record out of the ring.
\<close>

datatype bpf_step = Fire probe bpf_ctx | Set_target u32 | Consume

definition write_target :: "u32 \<Rightarrow> bpf_maps \<Rightarrow> bpf_maps" where
  "write_target tgid s = s\<lparr>TARGET_TGID := (TARGET_TGID s)[0 := tgid]\<rparr>"

fun do_step :: "bpf_step \<Rightarrow> bpf_maps \<Rightarrow> bpf_maps" where
  "do_step (Fire p ctx) s = snd (run_probe p ctx s)"
| "do_step (Set_target t) s = write_target t s"
| "do_step Consume s = s\<lparr>EVENTS := drop 1 (EVENTS s)\<rparr>"

fun do_steps :: "bpf_step list \<Rightarrow> bpf_maps \<Rightarrow> bpf_maps" where
  "do_steps [] s = s"
| "do_steps (st # sts) s = do_steps sts (do_step st s)"

text \<open>The states of a tracing session for one tgid: the target is only ever set to it.\<close>

inductive traced :: "u32 \<Rightarrow> bpf_maps \<Rightarrow> bool" for t :: u32 where
  loaded: "traced t bpf_init"
| target: "traced t s \<Longrightarrow> traced t (do_step (Set_target t) s)"
| fire: "traced t s \<Longrightarrow> wf_ctx ctx \<Longrightarrow> traced t (do_step (Fire p ctx) s)"
| consume: "traced t s \<Longrightarrow> traced t (do_step Consume s)"

section \<open>The session invariant\<close>

text \<open>
  Every record in the ring is a whole event of the traced process whose span ends at its
  timestamp, and every open span belongs to that process.
\<close>

definition good_event :: "u32 \<Rightarrow> event \<Rightarrow> bool" where
  "good_event t ev \<longleftrightarrow> wf_event ev \<and> t \<noteq> 0 \<and> ev_pid ev = t \<and> ev_event_type ev \<le> EVENT_BLOCK_IO
     \<and> ev_duration_ns ev \<le> ev_timestamp_ns ev"

definition good_record :: "u32 \<Rightarrow> u8 list \<Rightarrow> bool" where
  "good_record t r \<longleftrightarrow> length r = size_of event_fields \<and> good_event t (event_of_bytes r)"

definition bpf_inv :: "u32 \<Rightarrow> bpf_maps \<Rightarrow> bool" where
  "bpf_inv t s \<longleftrightarrow> (TARGET_TGID s = [0] \<or> TARGET_TGID s = [t])
     \<and> (\<forall>r\<in>set (EVENTS s). good_record t r)
     \<and> (\<forall>v\<in>ran (BLOCK_START s). t \<noteq> 0 \<and> bs_tgid v = t \<and> length (bs_comm v) = TASK_COMM_LEN)
     \<and> (\<forall>v\<in>ran (FUTEX_START s). t \<noteq> 0 \<and> fs_tgid v = t \<and> length (fs_comm v) = TASK_COMM_LEN)
     \<and> (\<forall>v\<in>ran (BLOCKIO_START s). t \<noteq> 0 \<and> io_tgid v = t \<and> length (io_comm v) = TASK_COMM_LEN)"

lemma merge_ret_state [simp]: "snd (merge_ret r) = snd r"
  by (auto simp: merge_ret_def split: prod.splits sum.splits)

lemma ran_map_insert: "v \<in> ran (map_insert ctx k x m) \<Longrightarrow> v = x \<or> v \<in> ran m"
  by (auto simp: map_insert_def ran_def split: if_splits)

lemma ran_map_remove: "v \<in> ran (map_remove k m) \<Longrightarrow> v \<in> ran m"
  by (auto simp: map_remove_def ran_def split: if_splits)

lemma good_record_event_bytes: "good_event t ev \<Longrightarrow> good_record t (event_bytes pad ev)"
  by (simp add: good_record_def good_event_def event_of_event_bytes)

lemma good_event_new:
  "t \<noteq> 0 \<Longrightarrow> ty \<le> EVENT_BLOCK_IO \<Longrightarrow> length c = TASK_COMM_LEN \<Longrightarrow>
   good_event t (event_new ts (saturating_sub ts start) k t tid ty c)"
  by (simp add: good_event_def saturating_sub_le)

lemma bpf_inv_emit: "bpf_inv t s \<Longrightarrow> good_event t ev \<Longrightarrow> bpf_inv t (emit ctx ev s)"
  by (auto simp: bpf_inv_def emit_def good_record_event_bytes)

lemma bpf_inv_target: "bpf_inv t s \<Longrightarrow> target_tgid s \<noteq> 0 \<Longrightarrow> target_tgid s = t"
  by (auto simp: bpf_inv_def target_tgid_def)

lemma length_current_comm: "wf_ctx ctx \<Longrightarrow> length (current_comm ctx) = TASK_COMM_LEN"
  by (auto simp: wf_ctx_def current_comm_def TASK_COMM_LEN_def split: option.splits)

lemma event_types_le:
  "EVENT_SCHED_BLOCK \<le> EVENT_BLOCK_IO" "EVENT_FUTEX_WAIT \<le> EVENT_BLOCK_IO"
  "EVENT_FUTEX_WAKE \<le> EVENT_BLOCK_IO"
  by (simp_all add: event_types)

lemma futex_event_type_le: "futex_event_type op = Some ty \<Longrightarrow> ty \<le> EVENT_BLOCK_IO"
  by (auto simp: futex_event_type_def Let_def event_types_le split: if_splits)

text \<open>Opening and closing a span keep the invariant, whichever map it is in.\<close>

lemma bpf_inv_block_insert:
  "bpf_inv t s \<Longrightarrow> t \<noteq> 0 \<Longrightarrow> bs_tgid v = t \<Longrightarrow> length (bs_comm v) = TASK_COMM_LEN \<Longrightarrow>
   bpf_inv t (s\<lparr>BLOCK_START := map_insert ctx k v (BLOCK_START s)\<rparr>)"
  by (auto simp: bpf_inv_def dest: ran_map_insert)

lemma bpf_inv_futex_insert:
  "bpf_inv t s \<Longrightarrow> t \<noteq> 0 \<Longrightarrow> fs_tgid v = t \<Longrightarrow> length (fs_comm v) = TASK_COMM_LEN \<Longrightarrow>
   bpf_inv t (s\<lparr>FUTEX_START := map_insert ctx k v (FUTEX_START s)\<rparr>)"
  by (auto simp: bpf_inv_def dest: ran_map_insert)

lemma bpf_inv_blockio_insert:
  "bpf_inv t s \<Longrightarrow> t \<noteq> 0 \<Longrightarrow> io_tgid v = t \<Longrightarrow> length (io_comm v) = TASK_COMM_LEN \<Longrightarrow>
   bpf_inv t (s\<lparr>BLOCKIO_START := map_insert ctx k v (BLOCKIO_START s)\<rparr>)"
  by (auto simp: bpf_inv_def dest: ran_map_insert)

lemma bpf_inv_remove:
  "bpf_inv t s \<Longrightarrow> bpf_inv t (s\<lparr>BLOCK_START := map_remove k (BLOCK_START s)\<rparr>)"
  "bpf_inv t s \<Longrightarrow> bpf_inv t (s\<lparr>FUTEX_START := map_remove k (FUTEX_START s)\<rparr>)"
  "bpf_inv t s \<Longrightarrow> bpf_inv t (s\<lparr>BLOCKIO_START := map_remove q (BLOCKIO_START s)\<rparr>)"
  by (auto simp: bpf_inv_def dest: ran_map_remove)

lemma bpf_inv_start:
  "bpf_inv t s \<Longrightarrow> BLOCK_START s k = Some b \<Longrightarrow>
     t \<noteq> 0 \<and> bs_tgid b = t \<and> length (bs_comm b) = TASK_COMM_LEN"
  "bpf_inv t s \<Longrightarrow> FUTEX_START s k = Some f \<Longrightarrow>
     t \<noteq> 0 \<and> fs_tgid f = t \<and> length (fs_comm f) = TASK_COMM_LEN"
  "bpf_inv t s \<Longrightarrow> BLOCKIO_START s q = Some i \<Longrightarrow>
     t \<noteq> 0 \<and> io_tgid i = t \<and> length (io_comm i) = TASK_COMM_LEN"
  by (auto simp: bpf_inv_def dest: ranI)

lemmas bpf_inv_intros = bpf_inv_emit bpf_inv_remove bpf_inv_block_insert bpf_inv_futex_insert
  bpf_inv_blockio_insert

lemma bpf_inv_sched_switch: "bpf_inv t s \<Longrightarrow> bpf_inv t (snd (try_sched_switch ctx s))"
proof (cases "target_tgid s = 0")
  case False
  assume inv: "bpf_inv t s"
  with False have t: "target_tgid s = t" "t \<noteq> 0" using bpf_inv_target by auto
  show ?thesis
  proof (cases "read_at sched_switch_fields sched_switch_of (cx_mem ctx)")
    case (Some evt)
    define s1 where "s1 = (if prev_state evt \<noteq> TASK_RUNNING \<and> current_tgid ctx = t then
      s\<lparr>BLOCK_START := map_insert ctx (prev_pid evt)
        \<lparr>bs_ts = cx_ktime ctx, bs_tgid = t, bs_comm = prev_comm evt\<rparr> (BLOCK_START s)\<rparr> else s)"
    have s1: "bpf_inv t s1"
      using inv t length_prev_comm [OF Some]
      by (auto simp: s1_def TASK_COMM_LEN_def intro!: bpf_inv_block_insert)
    have "snd (try_sched_switch ctx s) = (case BLOCK_START s1 (next_pid evt) of None \<Rightarrow> s1
      | Some start \<Rightarrow> emit ctx (event_new (cx_ktime ctx) (saturating_sub (cx_ktime ctx) (bs_ts start))
          0 (bs_tgid start) (next_pid evt) EVENT_SCHED_BLOCK (bs_comm start))
          (s1\<lparr>BLOCK_START := map_remove (next_pid evt) (BLOCK_START s1)\<rparr>))"
      using t Some by (auto simp: try_sched_switch_def Let_def s1_def split: option.splits)
    then show ?thesis
      using s1 bpf_inv_start(1) [OF s1]
      by (auto simp: event_types_le intro!: bpf_inv_intros good_event_new split: option.splits)
  qed (use inv t in \<open>simp add: try_sched_switch_def\<close>)
qed (simp add: try_sched_switch_def)

lemma bpf_inv_futex_enter:
  "bpf_inv t s \<Longrightarrow> wf_ctx ctx \<Longrightarrow> bpf_inv t (snd (try_futex_enter ctx s))"
  using bpf_inv_target [of t s]
  by (auto simp: try_futex_enter_def Let_def length_current_comm split: option.splits
      intro!: bpf_inv_futex_insert)

lemma bpf_inv_futex_exit: "bpf_inv t s \<Longrightarrow> bpf_inv t (snd (try_futex_exit ctx s))"
  using bpf_inv_start(2) [of t s "current_tid ctx"]
  by (auto simp: try_futex_exit_def Let_def split: option.splits
      intro!: bpf_inv_intros good_event_new dest: futex_event_type_le)

lemma bpf_inv_block_rq_issue:
  "bpf_inv t s \<Longrightarrow> wf_ctx ctx \<Longrightarrow> bpf_inv t (snd (try_block_rq_issue ctx s))"
  using bpf_inv_target [of t s]
  by (auto simp: try_block_rq_issue_def Let_def length_current_comm split: option.splits
      intro!: bpf_inv_blockio_insert)

lemma bpf_inv_block_rq_complete: "bpf_inv t s \<Longrightarrow> bpf_inv t (snd (try_block_rq_complete ctx s))"
  using bpf_inv_start(3) [of t s]
  by (auto simp: try_block_rq_complete_def Let_def split: option.splits
      intro!: bpf_inv_intros good_event_new)

lemmas probe_entries = sched_switch_def futex_enter_def futex_exit_def block_rq_issue_def
  block_rq_complete_def

lemma bpf_inv_fire: "bpf_inv t s \<Longrightarrow> wf_ctx ctx \<Longrightarrow> bpf_inv t (do_step (Fire p ctx) s)"
  by (cases p) (simp_all add: probe_entries bpf_inv_sched_switch bpf_inv_futex_enter
      bpf_inv_futex_exit bpf_inv_block_rq_issue bpf_inv_block_rq_complete)

lemma traced_inv: "traced t s \<Longrightarrow> bpf_inv t s"
proof (induction rule: traced.induct)
  case loaded
  show ?case by (simp add: bpf_inv_def bpf_init_def)
next
  case (target s)
  then show ?case by (auto simp: bpf_inv_def write_target_def)
next
  case (fire s ctx p)
  then show ?case by (intro bpf_inv_fire)
next
  case (consume s)
  then show ?case by (auto simp: bpf_inv_def dest: in_set_dropD)
qed

section \<open>Spans\<close>

text \<open>What a closing program adds to the ring, if the reservation succeeds.\<close>

definition ring_append :: "bpf_ctx \<Rightarrow> event option \<Rightarrow> u8 list list" where
  "ring_append ctx r =
     (case r of
        None \<Rightarrow> []
      | Some ev \<Rightarrow> if cx_reserve_ok ctx then [event_bytes (cx_pad ctx) ev] else [])"

text \<open>
  The contract of an in-flight map: steps that do not touch a key leave its span alone,
  an opening step records the span, a closing step removes it and reports it once, and
  closing a key with no open span reports nothing.
\<close>

locale span_source =
  fixes inflight :: "bpf_maps \<Rightarrow> 'k \<Rightarrow> 'v option"
    and touches :: "bpf_step \<Rightarrow> 'k \<Rightarrow> bool"
    and opens :: "bpf_step \<Rightarrow> bpf_maps \<Rightarrow> 'k \<Rightarrow> 'v \<Rightarrow> bool"
    and closes :: "bpf_ctx \<Rightarrow> bpf_maps \<Rightarrow> 'k \<Rightarrow> bool"
    and closer :: probe
    and report :: "bpf_ctx \<Rightarrow> 'k \<Rightarrow> 'v \<Rightarrow> event option"
  assumes frame: "\<not> touches st k \<Longrightarrow> inflight (do_step st s) k = inflight s k"
    and opened: "opens st s k v \<Longrightarrow> inflight (do_step st s) k = Some v"
    and closed: "closes ctx s k \<Longrightarrow> inflight (do_step (Fire closer ctx) s) k = None"
    and reported: "closes ctx s k \<Longrightarrow>
      EVENTS (do_step (Fire closer ctx) s) =
        EVENTS s @ ring_append ctx (Option.bind (inflight s k) (report ctx k))"
begin

lemma frame_steps:
  "\<forall>st\<in>set sts. \<not> touches st k \<Longrightarrow> inflight (do_steps sts s) k = inflight s k"
  by (induction sts arbitrary: s) (auto simp: frame)

lemma span_reported:
  assumes "opens st s k v" and "\<forall>st\<in>set mid. \<not> touches st k"
    and "closes ctx (do_steps (st # mid) s) k"
  shows "EVENTS (do_steps (st # mid @ [Fire closer ctx]) s) =
      EVENTS (do_steps (st # mid) s) @ ring_append ctx (report ctx k v)"
proof -
  have steps: "do_steps (xs @ [x]) s' = do_step x (do_steps xs s')" for xs x s'
    by (induction xs arbitrary: s') auto
  have "inflight (do_steps (st # mid) s) k = Some v"
    using assms(1,2) by (simp add: frame_steps opened)
  with reported [OF assms(3)] steps [of "st # mid"] show ?thesis by simp
qed

lemma closed_span_not_reported_again:
  assumes "closes ctx s k" and "\<forall>st\<in>set mid. \<not> touches st k"
    and "closes ctx' (do_steps (Fire closer ctx # mid) s) k"
  shows "EVENTS (do_step (Fire closer ctx') (do_steps (Fire closer ctx # mid) s)) =
      EVENTS (do_steps (Fire closer ctx # mid) s)"
  using assms by (simp add: reported frame_steps closed ring_append_def del: do_step.simps)

end

subsection \<open>Off-CPU spans\<close>

definition sched_evt :: "bpf_ctx \<Rightarrow> TraceEventRawSchedSwitch option" where
  "sched_evt ctx = read_at sched_switch_fields sched_switch_of (cx_mem ctx)"

fun sched_touches :: "bpf_step \<Rightarrow> u32 \<Rightarrow> bool" where
  "sched_touches (Fire Sched_switch ctx) tid =
     (case sched_evt ctx of None \<Rightarrow> False | Some e \<Rightarrow> prev_pid e = tid \<or> next_pid e = tid)"
| "sched_touches _ tid = False"

fun sched_opens :: "bpf_step \<Rightarrow> bpf_maps \<Rightarrow> u32 \<Rightarrow> BlockStart \<Rightarrow> bool" where
  "sched_opens (Fire Sched_switch ctx) s tid v =
     (target_tgid s \<noteq> 0 \<and> current_tgid ctx = target_tgid s \<and> cx_insert_ok ctx \<and>
      (case sched_evt ctx of
         None \<Rightarrow> False
       | Some e \<Rightarrow> prev_state e \<noteq> TASK_RUNNING \<and> prev_pid e = tid \<and> next_pid e \<noteq> tid \<and>
           v = \<lparr>bs_ts = cx_ktime ctx, bs_tgid = target_tgid s, bs_comm = prev_comm e\<rparr>))"
| "sched_opens _ s tid v = False"

definition sched_closes :: "bpf_ctx \<Rightarrow> bpf_maps \<Rightarrow> u32 \<Rightarrow> bool" where
  "sched_closes ctx s tid \<longleftrightarrow> target_tgid s \<noteq> 0 \<and>
     (case sched_evt ctx of None \<Rightarrow> False | Some e \<Rightarrow> next_pid e = tid \<and> prev_pid e \<noteq> tid)"

definition sched_report :: "bpf_ctx \<Rightarrow> u32 \<Rightarrow> BlockStart \<Rightarrow> event option" where
  "sched_report ctx tid v =
     Some (event_new (cx_ktime ctx) (saturating_sub (cx_ktime ctx) (bs_ts v)) 0 (bs_tgid v) tid
       EVENT_SCHED_BLOCK (bs_comm v))"

subsection \<open>Futex spans\<close>

definition futex_evt :: "bpf_ctx \<Rightarrow> TraceEventRawSysEnter option" where
  "futex_evt ctx = read_at sys_enter_fields sys_enter_of (cx_mem ctx)"

fun futex_touches :: "bpf_step \<Rightarrow> u32 \<Rightarrow> bool" where
  "futex_touches (Fire Futex_enter ctx) tid = (current_tid ctx = tid)"
| "futex_touches (Fire Futex_exit ctx) tid = (current_tid ctx = tid)"
| "futex_touches _ tid = False"

fun futex_opens :: "bpf_step \<Rightarrow> bpf_maps \<Rightarrow> u32 \<Rightarrow> FutexStart \<Rightarrow> bool" where
  "futex_opens (Fire Futex_enter ctx) s tid v =
     (target_tgid s \<noteq> 0 \<and> current_tgid ctx = target_tgid s \<and> cx_insert_ok ctx \<and>
      current_tid ctx = tid \<and>
      (case futex_evt ctx of
         None \<Rightarrow> False
       | Some e \<Rightarrow> v = \<lparr>fs_ts = cx_ktime ctx, fs_uaddr = se_args e ! 0,
           fs_op = ucast (se_args e ! 1), fs_tgid = target_tgid s, fs_comm = current_comm ctx\<rparr>))"
| "futex_opens _ s tid v = False"

definition futex_closes :: "bpf_ctx \<Rightarrow> bpf_maps \<Rightarrow> u32 \<Rightarrow> bool" where
  "futex_closes ctx s tid \<longleftrightarrow> current_tid ctx = tid"

definition futex_report :: "bpf_ctx \<Rightarrow> u32 \<Rightarrow> FutexStart \<Rightarrow> event option" where
  "futex_report ctx tid v =
     map_option (\<lambda>ty. event_new (cx_ktime ctx) (saturating_sub (cx_ktime ctx) (fs_ts v)) (fs_uaddr v)
       (fs_tgid v) tid ty (fs_comm v)) (futex_event_type (fs_op v))"

subsection \<open>Block I/O spans\<close>

definition issue_evt :: "bpf_ctx \<Rightarrow> TraceEventRawBlockRq option" where
  "issue_evt ctx = read_at block_rq_fields block_rq_of (cx_mem ctx)"

definition complete_evt :: "bpf_ctx \<Rightarrow> TraceEventRawBlockRqCompletion option" where
  "complete_evt ctx = read_at block_rq_completion_fields block_rq_completion_of (cx_mem ctx)"

fun blockio_touches :: "bpf_step \<Rightarrow> u64 \<Rightarrow> bool" where
  "blockio_touches (Fire Block_rq_issue ctx) key =
     (case issue_evt ctx of None \<Rightarrow> False | Some e \<Rightarrow> pack_block_key (rq_dev e) (rq_sector e) = key)"
| "blockio_touches (Fire Block_rq_complete ctx) key =
     (case complete_evt ctx of None \<Rightarrow> False | Some e \<Rightarrow> pack_block_key (rc_dev e) (rc_sector e) = key)"
| "blockio_touches _ key = False"

fun blockio_opens :: "bpf_step \<Rightarrow> bpf_maps \<Rightarrow> u64 \<Rightarrow> BlockIoStart \<Rightarrow> bool" where
  "blockio_opens (Fire Block_rq_issue ctx) s key v =
     (target_tgid s \<noteq> 0 \<and> current_tgid ctx = target_tgid s \<and> cx_insert_ok ctx \<and>
      (case issue_evt ctx of
         None \<Rightarrow> False
       | Some e \<Rightarrow> pack_block_key (rq_dev e) (rq_sector e) = key \<and>
           v = \<lparr>io_ts = cx_ktime ctx, io_tgid = target_tgid s, io_tid = current_tid ctx,
             io_comm = current_comm ctx\<rparr>))"
| "blockio_opens _ s key v = False"

definition blockio_closes :: "bpf_ctx \<Rightarrow> bpf_maps \<Rightarrow> u64 \<Rightarrow> bool" where
  "blockio_closes ctx s key \<longleftrightarrow>
     (case complete_evt ctx of None \<Rightarrow> False | Some e \<Rightarrow> pack_block_key (rc_dev e) (rc_sector e) = key)"

definition blockio_report :: "bpf_ctx \<Rightarrow> u64 \<Rightarrow> BlockIoStart \<Rightarrow> event option" where
  "blockio_report ctx key v =
     Some (event_new (cx_ktime ctx) (saturating_sub (cx_ktime ctx) (io_ts v)) key (io_tgid v) (io_tid v)
       EVENT_BLOCK_IO (io_comm v))"

subsection \<open>The three maps meet the contract\<close>

lemma emit_sel [simp]:
  "TARGET_TGID (emit ctx ev s) = TARGET_TGID s" "BLOCK_START (emit ctx ev s) = BLOCK_START s"
  "FUTEX_START (emit ctx ev s) = FUTEX_START s" "BLOCKIO_START (emit ctx ev s) = BLOCKIO_START s"
  "EVENTS (emit ctx ev s) = EVENTS s @ ring_append ctx (Some ev)"
  by (simp_all add: emit_def ring_append_def)

lemma map_ops [simp]:
  "map_insert ctx k v m k' = (if cx_insert_ok ctx \<and> k' = k then Some v else m k')"
  "map_remove k m k' = (if k' = k then None else m k')"
  by (auto simp: map_insert_def map_remove_def)

lemmas probe_defs = try_sched_switch_def try_futex_enter_def try_futex_exit_def
  try_block_rq_issue_def try_block_rq_complete_def

text \<open>Each map is written by its own programs only.\<close>

lemma map_frames:
  "BLOCK_START (snd (try_futex_enter ctx s)) = BLOCK_START s"
  "BLOCK_START (snd (try_futex_exit ctx s)) = BLOCK_START s"
  "BLOCK_START (snd (try_block_rq_issue ctx s)) = BLOCK_START s"
  "BLOCK_START (snd (try_block_rq_complete ctx s)) = BLOCK_START s"
  "FUTEX_START (snd (try_sched_switch ctx s)) = FUTEX_START s"
  "FUTEX_START (snd (try_block_rq_issue ctx s)) = FUTEX_START s"
  "FUTEX_START (snd (try_block_rq_complete ctx s)) = FUTEX_START s"
  "BLOCKIO_START (snd (try_sched_switch ctx s)) = BLOCKIO_START s"
  "BLOCKIO_START (snd (try_futex_enter ctx s)) = BLOCKIO_START s"
  "BLOCKIO_START (snd (try_futex_exit ctx s)) = BLOCKIO_START s"
  by (auto simp: probe_defs Let_def split: option.splits)

lemma steps_write_target [simp]:
  "BLOCK_START (write_target t s) = BLOCK_START s" "FUTEX_START (write_target t s) = FUTEX_START s"
  "BLOCKIO_START (write_target t s) = BLOCKIO_START s" "EVENTS (write_target t s) = EVENTS s"
  by (simp_all add: write_target_def)

lemma sched_frame:
  assumes "\<not> sched_touches st tid"
  shows "BLOCK_START (do_step st s) tid = BLOCK_START s tid"
  using assms
  by (cases st; cases "case st of Fire p _ \<Rightarrow> p | _ \<Rightarrow> Sched_switch")
     (auto simp: probe_entries map_frames try_sched_switch_def Let_def sched_evt_def
       split: option.splits)

lemma futex_frame:
  assumes "\<not> futex_touches st tid"
  shows "FUTEX_START (do_step st s) tid = FUTEX_START s tid"
  using assms
  by (cases st; cases "case st of Fire p _ \<Rightarrow> p | _ \<Rightarrow> Sched_switch")
     (auto simp: probe_entries map_frames try_futex_enter_def try_futex_exit_def Let_def
       split: option.splits)

lemma blockio_frame:
  assumes "\<not> blockio_touches st key"
  shows "BLOCKIO_START (do_step st s) key = BLOCKIO_START s key"
  using assms
  by (cases st; cases "case st of Fire p _ \<Rightarrow> p | _ \<Rightarrow> Sched_switch")
     (auto simp: probe_entries map_frames try_block_rq_issue_def try_block_rq_complete_def Let_def
       issue_evt_def complete_evt_def split: option.splits)

interpretation sched_spans: span_source BLOCK_START sched_touches sched_opens sched_closes
  Sched_switch sched_report
proof
  fix st s tid v
  assume "sched_opens st s tid v"
  then show "BLOCK_START (do_step st s) tid = Some v"
    by (cases "(st, s, tid, v)" rule: sched_opens.cases)
       (auto simp: probe_entries try_sched_switch_def sched_evt_def Let_def split: option.splits)
next
  fix ctx s tid
  assume "sched_closes ctx s tid"
  then show "BLOCK_START (do_step (Fire Sched_switch ctx) s) tid = None"
    "EVENTS (do_step (Fire Sched_switch ctx) s) =
        EVENTS s @ ring_append ctx (Option.bind (BLOCK_START s tid) (sched_report ctx tid))"
    by (auto simp: probe_entries try_sched_switch_def sched_closes_def sched_evt_def sched_report_def
        ring_append_def Let_def split: option.splits)
qed (rule sched_frame)

interpretation futex_spans: span_source FUTEX_START futex_touches futex_opens futex_closes
  Futex_exit futex_report
proof
  fix st s tid v
  assume "futex_opens st s tid v"
  then show "FUTEX_START (do_step st s) tid = Some v"
    by (cases "(st, s, tid, v)" rule: futex_opens.cases)
       (auto simp: probe_entries try_futex_enter_def futex_evt_def Let_def split: option.splits)
next
  fix ctx s tid
  assume "futex_closes ctx s tid"
  then show "FUTEX_START (do_step (Fire Futex_exit ctx) s) tid = None"
    "EVENTS (do_step (Fire Futex_exit ctx) s) =
        EVENTS s @ ring_append ctx (Option.bind (FUTEX_START s tid) (futex_report ctx tid))"
    by (auto simp: probe_entries try_futex_exit_def futex_closes_def futex_report_def
        ring_append_def Let_def split: option.splits)
qed (rule futex_frame)

interpretation blockio_spans: span_source BLOCKIO_START blockio_touches blockio_opens blockio_closes
  Block_rq_complete blockio_report
proof
  fix st s key v
  assume "blockio_opens st s key v"
  then show "BLOCKIO_START (do_step st s) key = Some v"
    by (cases "(st, s, key, v)" rule: blockio_opens.cases)
       (auto simp: probe_entries try_block_rq_issue_def issue_evt_def Let_def split: option.splits)
next
  fix ctx s key
  assume "blockio_closes ctx s key"
  then show "BLOCKIO_START (do_step (Fire Block_rq_complete ctx) s) key = None"
    "EVENTS (do_step (Fire Block_rq_complete ctx) s) =
        EVENTS s @ ring_append ctx (Option.bind (BLOCKIO_START s key) (blockio_report ctx key))"
    by (auto simp: probe_entries try_block_rq_complete_def blockio_closes_def complete_evt_def
        blockio_report_def ring_append_def Let_def split: option.splits)
qed (rule blockio_frame)

section \<open>Further lemmas\<close>

text \<open>Clearing the two flag bits leaves a command exactly for the four flag combinations.\<close>

lemma or_low_flags:
  fixes op c :: u32
  assumes "c AND 384 = 0"
  shows "op AND NOT 384 = c \<longleftrightarrow> op \<in> {c, c OR 128, c OR 256, c OR 384}"
proof
  assume c: "op AND NOT 384 = c"
  have split: "op = (op AND NOT 384) OR (op AND 384)"
    by (rule bit_word_eqI) (auto simp: bit_simps)
  have "op AND 384 = (op AND 128) OR (op AND 256)"
    by (subst bit.conj_disj_distrib [symmetric]) simp
  moreover have "op AND 2 ^ n \<in> {0, 2 ^ n}" for n
    by (cases "bit op n") (auto intro!: bit_word_eqI simp: bit_simps)
  from this [of 7] this [of 8] have "op AND 128 \<in> {0, 128}" "op AND 256 \<in> {0, 256}" by simp_all
  ultimately have "op AND 384 \<in> {0, 128, 256, 384}" by auto
  then show "op \<in> {c, c OR 128, c OR 256, c OR 384}"
    using split c by auto
next
  assume op: "op \<in> {c, c OR 128, c OR 256, c OR 384}"
  have "c = (c AND NOT 384) OR (c AND 384)"
    by (rule bit_word_eqI) (auto simp: bit_simps)
  then have c: "c AND NOT 384 = c" using assms by simp
  show "op AND NOT 384 = c"
    using op c by (auto simp: bit.conj_disj_distrib2)
qed

lemma futex_wait_ops:
  "futex_event_type op = Some EVENT_FUTEX_WAIT \<longleftrightarrow> op \<in> {0, 128, 256, 384, 9, 137, 265, 393}"
  "futex_event_type op = Some EVENT_FUTEX_WAKE \<longleftrightarrow> op \<in> {1, 129, 257, 385, 10, 138, 266, 394}"
  using or_low_flags [of 0 op] or_low_flags [of 9 op] or_low_flags [of 1 op] or_low_flags [of 10 op]
  by (auto simp: futex_event_type_def Let_def uapi_defs event_types)
text \<open>Until a target is written no program does anything.\<close>

lemma fire_without_target:
  assumes "target_tgid s = 0" and "FUTEX_START s = Map.empty" and "BLOCKIO_START s = Map.empty"
  shows "do_step (Fire p ctx) s = s"
  using assms by (cases p) (auto simp: probe_entries probe_defs Let_def split: option.splits)

lemma fire_foreign:
  assumes "current_tgid ctx \<noteq> target_tgid s"
  shows "BLOCK_START (do_step (Fire p ctx) s) \<subseteq>\<^sub>m BLOCK_START s"
    and "FUTEX_START (do_step (Fire p ctx) s) \<subseteq>\<^sub>m FUTEX_START s"
    and "BLOCKIO_START (do_step (Fire p ctx) s) \<subseteq>\<^sub>m BLOCKIO_START s"
  using assms
  by (cases p; auto simp: probe_entries probe_defs Let_def map_le_def split: option.splits if_splits)+

lemma fire_target [simp]: "target_tgid (do_step (Fire p ctx) s) = target_tgid s"
  by (cases p) (auto simp: probe_entries probe_defs target_tgid_def Let_def split: option.splits)

lemma fire_appends: "\<exists>r. EVENTS (do_step (Fire p ctx) s) = EVENTS s @ ring_append ctx r"
  by (cases p; simp add: probe_entries probe_defs Let_def split: option.split)
     (auto simp: ring_append_def split: option.splits intro: exI [of _ None])

text \<open>The struct a program reads, and whether its read fails after the program's own guard.\<close>

fun read_fails :: "probe \<Rightarrow> bpf_ctx \<Rightarrow> bpf_maps \<Rightarrow> bool" where
  "read_fails Sched_switch ctx s = (target_tgid s \<noteq> 0 \<and> sched_evt ctx = None)"
| "read_fails Futex_enter ctx s =
     (target_tgid s \<noteq> 0 \<and> current_tgid ctx = target_tgid s \<and> futex_evt ctx = None)"
| "read_fails Futex_exit ctx s = False"
| "read_fails Block_rq_issue ctx s =
     (target_tgid s \<noteq> 0 \<and> current_tgid ctx = target_tgid s \<and> issue_evt ctx = None)"
| "read_fails Block_rq_complete ctx s = (complete_evt ctx = None)"

lemmas evt_defs = sched_evt_def futex_evt_def issue_evt_def complete_evt_def

lemma run_probe_code:
  "fst (run_probe p ctx s) = (if read_fails p ctx s then 1 else 0)"
  "read_fails p ctx s \<Longrightarrow> snd (run_probe p ctx s) = s"
  by (cases p; auto simp: probe_entries probe_defs evt_defs merge_ret_def Let_def
      split: option.splits)+

end
