(* ===== verification/Probe_Properties.thy ===== *)
theory Probe_Properties
  imports Probes
begin

text \<open>
  The properties of the eBPF programs, each a consequence of the session invariant or of
  the span contract, with concrete runs as witnesses.
\<close>

section \<open>Concrete invocations\<close>

definition ex_entry :: TraceEntry where
  "ex_entry = \<lparr>kind = 0, flags = 0, preempt_count = 0, ent_pid = 0\<rparr>"

definition ex_ctx :: "u8 list \<Rightarrow> u64 \<Rightarrow> u64 \<Rightarrow> bpf_ctx" where
  "ex_ctx mem pid_tgid ts =
     \<lparr>cx_mem = Some mem, cx_pid_tgid = pid_tgid, cx_ktime = ts, cx_comm = Some (replicate 16 97),
      cx_insert_ok = True, cx_reserve_ok = True, cx_pad = (\<lambda>_. 0)\<rparr>"

definition ex_switch :: "i32 \<Rightarrow> i64 \<Rightarrow> i32 \<Rightarrow> TraceEventRawSchedSwitch" where
  "ex_switch prev state next =
     \<lparr>ss_ent = ex_entry, prev_comm = replicate 16 98, prev_pid = prev, prev_prio = 120,
      prev_state = state, next_comm = replicate 16 99, next_pid = next, next_prio = 120\<rparr>"

definition ex_futex :: "u64 \<Rightarrow> u64 \<Rightarrow> TraceEventRawSysEnter" where
  "ex_futex uaddr op = \<lparr>se_ent = ex_entry, se_id = 202, se_args = [uaddr, op, 2, 0, 0, 0]\<rparr>"

definition ex_issue :: "u32 \<Rightarrow> u64 \<Rightarrow> TraceEventRawBlockRq" where
  "ex_issue dev sector =
     \<lparr>rq_ent = ex_entry, rq_dev = dev, rq_sector = sector, rq_nr_sector = 8, rq_bytes = 4096,
      rq_ioprio = 0, rq_rwbs = replicate 10 82, rq_comm = replicate 16 98, rq_data_loc_cmd = 0\<rparr>"

definition ex_complete :: "u32 \<Rightarrow> u64 \<Rightarrow> TraceEventRawBlockRqCompletion" where
  "ex_complete dev sector =
     \<lparr>rc_ent = ex_entry, rc_dev = dev, rc_sector = sector, rc_nr_sector = 8, rc_error = 0,
      rc_ioprio = 0, rc_rwbs = replicate 10 82, rc_data_loc_cmd = 0\<rparr>"

definition switch_ctx :: "i32 \<Rightarrow> i64 \<Rightarrow> i32 \<Rightarrow> u64 \<Rightarrow> u64 \<Rightarrow> bpf_ctx" where
  "switch_ctx prev state next pid_tgid ts =
     ex_ctx (sched_switch_bytes (\<lambda>_. 0) (ex_switch prev state next)) pid_tgid ts"

definition futex_ctx :: "u64 \<Rightarrow> u64 \<Rightarrow> u64 \<Rightarrow> u64 \<Rightarrow> bpf_ctx" where
  "futex_ctx uaddr op pid_tgid ts = ex_ctx (sys_enter_bytes (\<lambda>_. 0) (ex_futex uaddr op)) pid_tgid ts"

definition issue_ctx :: "u32 \<Rightarrow> u64 \<Rightarrow> u64 \<Rightarrow> u64 \<Rightarrow> bpf_ctx" where
  "issue_ctx dev sector pid_tgid ts = ex_ctx (block_rq_bytes (\<lambda>_. 0) (ex_issue dev sector)) pid_tgid ts"

definition complete_ctx :: "u32 \<Rightarrow> u64 \<Rightarrow> u64 \<Rightarrow> u64 \<Rightarrow> bpf_ctx" where
  "complete_ctx dev sector pid_tgid ts =
     ex_ctx (block_rq_completion_bytes (\<lambda>_. 0) (ex_complete dev sector)) pid_tgid ts"

definition ex_state :: bpf_maps where
  "ex_state = do_step (Set_target 7) bpf_init"

lemma ex_evts [simp]:
  "sched_evt (switch_ctx p st n pt ts) = Some (ex_switch p st n)"
  "futex_evt (futex_ctx a op pt ts) = Some (ex_futex a op)"
  "issue_evt (issue_ctx d sec pt ts) = Some (ex_issue d sec)"
  "complete_evt (complete_ctx d sec pt ts) = Some (ex_complete d sec)"
  by (simp_all add: sched_evt_def switch_ctx_def futex_evt_def futex_ctx_def issue_evt_def
      issue_ctx_def complete_evt_def complete_ctx_def ex_ctx_def sched_switch_roundtrip
      sys_enter_roundtrip block_rq_roundtrip block_rq_completion_roundtrip ex_switch_def
      ex_futex_def ex_issue_def ex_complete_def)

lemma ex_ctx_sel [simp]:
  "cx_ktime (switch_ctx p st n pt ts) = ts" "cx_pid_tgid (switch_ctx p st n pt ts) = pt"
  "cx_comm (switch_ctx p st n pt ts) = Some (replicate 16 97)" "cx_insert_ok (switch_ctx p st n pt ts)"
  "cx_reserve_ok (switch_ctx p st n pt ts)" "cx_pad (switch_ctx p st n pt ts) = (\<lambda>_. 0)"
  "cx_ktime (futex_ctx a op pt ts) = ts" "cx_pid_tgid (futex_ctx a op pt ts) = pt"
  "cx_comm (futex_ctx a op pt ts) = Some (replicate 16 97)" "cx_insert_ok (futex_ctx a op pt ts)"
  "cx_reserve_ok (futex_ctx a op pt ts)" "cx_pad (futex_ctx a op pt ts) = (\<lambda>_. 0)"
  "cx_ktime (issue_ctx d sec pt ts) = ts" "cx_pid_tgid (issue_ctx d sec pt ts) = pt"
  "cx_comm (issue_ctx d sec pt ts) = Some (replicate 16 97)" "cx_insert_ok (issue_ctx d sec pt ts)"
  "cx_reserve_ok (issue_ctx d sec pt ts)" "cx_pad (issue_ctx d sec pt ts) = (\<lambda>_. 0)"
  "cx_ktime (complete_ctx d sec pt ts) = ts" "cx_pid_tgid (complete_ctx d sec pt ts) = pt"
  "cx_comm (complete_ctx d sec pt ts) = Some (replicate 16 97)" "cx_insert_ok (complete_ctx d sec pt ts)"
  "cx_reserve_ok (complete_ctx d sec pt ts)" "cx_pad (complete_ctx d sec pt ts) = (\<lambda>_. 0)"
  by (simp_all add: ex_ctx_def switch_ctx_def futex_ctx_def issue_ctx_def complete_ctx_def)

lemma ex_evt_sel [simp]:
  "prev_pid (ex_switch p st n) = p" "next_pid (ex_switch p st n) = n"
  "prev_state (ex_switch p st n) = st" "prev_comm (ex_switch p st n) = replicate 16 98"
  "se_args (ex_futex a op) = [a, op, 2, 0, 0, 0]"
  "rq_dev (ex_issue d sec) = d" "rq_sector (ex_issue d sec) = sec"
  "rc_dev (ex_complete d sec) = d" "rc_sector (ex_complete d sec) = sec"
  by (simp_all add: ex_switch_def ex_futex_def ex_issue_def ex_complete_def)

lemma ex_target [simp]: "target_tgid ex_state = 7"
  by (simp add: ex_state_def target_tgid_def write_target_def bpf_init_def)

section \<open>Properties\<close>

text \<open>C5: Every record in the ring buffer during a session for tgid \<open>t\<close> is exactly one
  56-byte event of process \<open>t\<close> with a known event type, whose span started at or after
  time 0; this holds for every interleaving of the five programs with the consumer and
  for every outcome of the kernel calls.\<close>

theorem session_records_belong_to_target:
  assumes "traced t s" and "r \<in> set (EVENTS s)"
  shows "length r = 56 \<and> t \<noteq> 0 \<and> ev_pid (event_of_bytes r) = t
    \<and> ev_event_type (event_of_bytes r) \<le> 3
    \<and> ev_duration_ns (event_of_bytes r) \<le> ev_timestamp_ns (event_of_bytes r)
    \<and> length (ev_comm (event_of_bytes r)) = 16"
  using traced_inv [OF assms(1)] assms(2)
  by (auto simp: bpf_inv_def good_record_def good_event_def wf_event_def event_layout event_types
      TASK_COMM_LEN_def)

lemma traced_example:
  "traced 7 (do_steps [Fire Sched_switch (switch_ctx 8 1 9 0x700000008 100),
     Fire Sched_switch (switch_ctx 9 0 8 0x700000009 350)] ex_state)"
  by (auto simp: ex_state_def wf_ctx_def TASK_COMM_LEN_def simp del: do_step.simps
      intro!: traced.intros)

lemma ring_example:
  "EVENTS (do_steps [Fire Sched_switch (switch_ctx 8 1 9 0x700000008 100),
     Fire Sched_switch (switch_ctx 9 0 8 0x700000009 350)] ex_state)
   = [event_bytes (\<lambda>_. 0) (event_new 350 250 0 7 8 EVENT_SCHED_BLOCK (replicate 16 98))]"
proof -
  let ?c1 = "switch_ctx 8 1 9 0x700000008 100" and ?c2 = "switch_ctx 9 0 8 0x700000009 350"
  let ?v = "\<lparr>bs_ts = 100, bs_tgid = 7, bs_comm = replicate 16 98\<rparr>"
  let ?s = "do_steps [Fire Sched_switch ?c1] ex_state"
  have "sched_opens (Fire Sched_switch ?c1) ex_state 8 ?v"
    by (simp add: current_tgid_def TASK_RUNNING_def)
  moreover have "EVENTS ?s = []"
    using sched_spans.reported [of ?c1 ex_state 9]
    by (simp add: sched_closes_def ex_state_def write_target_def bpf_init_def target_tgid_def
        ring_append_def)
  moreover have "sched_closes ?c2 ?s 8"
    by (simp add: sched_closes_def del: do_step.simps)
  ultimately show ?thesis
    using sched_spans.span_reported [of "Fire Sched_switch ?c1" ex_state 8 ?v "[]" ?c2]
    by (simp add: ring_append_def sched_report_def saturating_sub_def del: do_step.simps)
qed

theorem session_records_belong_to_target_witness:
  "ev_pid (event_of_bytes (event_bytes (\<lambda>_. 0)
     (event_new 350 250 0 7 8 EVENT_SCHED_BLOCK (replicate 16 98)))) = 7"
  using session_records_belong_to_target [OF traced_example, unfolded ring_example] by simp

text \<open>
  The states \<open>sched_switch\<close> reports for a thread that sleeps, is stopped or is gone are bits
  below \<open>TASK_REPORT_MAX\<close>, which is 0x100 and stands for a thread that was preempted.
\<close>

definition blocked_state :: "i64 \<Rightarrow> bool" where
  "blocked_state st \<longleftrightarrow> st AND 0xFF \<noteq> 0"

lemma blocked_not_running: "blocked_state st \<Longrightarrow> st \<noteq> TASK_RUNNING"
  by (auto simp: blocked_state_def TASK_RUNNING_def)

lemma running_switch_frame:
  assumes "sched_evt c = Some e" and "prev_state e = TASK_RUNNING" and "next_pid e \<noteq> tid"
  shows "BLOCK_START (do_step (Fire Sched_switch c) s) tid = BLOCK_START s tid"
  using assms by (auto simp: probe_entries try_sched_switch_def sched_evt_def Let_def split: option.splits)

text \<open>C9: A thread of the target is switched out and later switched in again, with any steps in
  between that do not switch this thread. If it left the CPU blocked, its switch-in produces
  exactly one record: stamped at the switch-in, as long as the time off the CPU, with the
  identity taken at the switch-out. If it left as running, with no span of it open, it
  produces none.\<close>

theorem off_cpu_span_reported:
  assumes "target_tgid s = t" and "t \<noteq> 0" and "current_tgid c1 = t" and "cx_insert_ok c1"
    and "sched_evt c1 = Some e1" and "prev_pid e1 = tid" and "next_pid e1 \<noteq> tid"
    and "\<forall>st\<in>set mid. \<not> sched_touches st tid"
    and "target_tgid (do_steps (Fire Sched_switch c1 # mid) s) \<noteq> 0"
    and "sched_evt c2 = Some e2" and "next_pid e2 = tid" and "prev_pid e2 \<noteq> tid"
    and "cx_reserve_ok c2"
  shows "(blocked_state (prev_state e1) \<longrightarrow>
       EVENTS (do_steps (Fire Sched_switch c1 # mid @ [Fire Sched_switch c2]) s) =
       EVENTS (do_steps (Fire Sched_switch c1 # mid) s) @
         [event_bytes (cx_pad c2) (event_new (cx_ktime c2) (saturating_sub (cx_ktime c2) (cx_ktime c1))
            0 t tid EVENT_SCHED_BLOCK (prev_comm e1))])
    \<and> (prev_state e1 = TASK_RUNNING \<and> BLOCK_START s tid = None \<longrightarrow>
       EVENTS (do_steps (Fire Sched_switch c1 # mid @ [Fire Sched_switch c2]) s) =
       EVENTS (do_steps (Fire Sched_switch c1 # mid) s))"
proof (intro conjI impI)
  have c: "sched_closes c2 (do_steps (Fire Sched_switch c1 # mid) s) tid"
    using assms by (simp add: sched_closes_def)
  have steps: "do_steps (xs @ [x]) s' = do_step x (do_steps xs s')" for xs x s'
    by (induction xs arbitrary: s') auto
  {
    assume "blocked_state (prev_state e1)"
    then have o: "sched_opens (Fire Sched_switch c1) s tid
        \<lparr>bs_ts = cx_ktime c1, bs_tgid = t, bs_comm = prev_comm e1\<rparr>"
      using assms blocked_not_running by simp
    show "EVENTS (do_steps (Fire Sched_switch c1 # mid @ [Fire Sched_switch c2]) s) =
       EVENTS (do_steps (Fire Sched_switch c1 # mid) s) @
         [event_bytes (cx_pad c2) (event_new (cx_ktime c2) (saturating_sub (cx_ktime c2) (cx_ktime c1))
            0 t tid EVENT_SCHED_BLOCK (prev_comm e1))]"
      using sched_spans.span_reported [OF o assms(8) c] assms(13)
      by (simp add: ring_append_def sched_report_def del: do_step.simps)
  next
    assume "prev_state e1 = TASK_RUNNING \<and> BLOCK_START s tid = None"
    then have "BLOCK_START (do_steps (Fire Sched_switch c1 # mid) s) tid = None"
      using running_switch_frame [OF assms(5) _ assms(7)] sched_spans.frame_steps [OF assms(8)]
      by (simp del: do_step.simps)
    then show "EVENTS (do_steps (Fire Sched_switch c1 # mid @ [Fire Sched_switch c2]) s) =
       EVENTS (do_steps (Fire Sched_switch c1 # mid) s)"
      using sched_spans.reported [OF c] steps [of "Fire Sched_switch c1 # mid"]
      by (simp add: ring_append_def del: do_step.simps)
  }
qed

theorem off_cpu_span_reported_witness:
  "EVENTS (do_steps [Fire Sched_switch (switch_ctx 8 1 9 0x700000008 100),
      Fire Sched_switch (switch_ctx 9 1 3 0x700000009 200),
      Fire Sched_switch (switch_ctx 3 0 8 0x300000003 350)] ex_state) =
   EVENTS (do_steps [Fire Sched_switch (switch_ctx 8 1 9 0x700000008 100),
      Fire Sched_switch (switch_ctx 9 1 3 0x700000009 200)] ex_state) @
     [event_bytes (\<lambda>_. 0) (event_new 350 250 0 7 8 EVENT_SCHED_BLOCK (replicate 16 98))]"
  using off_cpu_span_reported [of ex_state 7 "switch_ctx 8 1 9 0x700000008 100" "ex_switch 8 1 9" 8
      "[Fire Sched_switch (switch_ctx 9 1 3 0x700000009 200)]" "switch_ctx 3 0 8 0x300000003 350"
      "ex_switch 3 0 8"]
  by (simp add: current_tgid_def blocked_state_def saturating_sub_def del: do_step.simps)

text \<open>C10: A futex call of a thread of the target that waits or wakes, with any steps in
  between that are not futex calls of this thread, produces exactly one record when it
  returns: of the type its operation has, keyed by the futex address, as long as the
  call.\<close>

theorem futex_span_reported:
  assumes "target_tgid s = t" and "t \<noteq> 0" and "current_tgid c1 = t" and "cx_insert_ok c1"
    and "futex_evt c1 = Some e1" and "current_tid c1 = tid"
    and "futex_event_type (ucast (se_args e1 ! 1)) = Some ty"
    and "\<forall>st\<in>set mid. \<not> futex_touches st tid"
    and "current_tid c2 = tid" and "cx_reserve_ok c2"
  shows "EVENTS (do_steps (Fire Futex_enter c1 # mid @ [Fire Futex_exit c2]) s) =
     EVENTS (do_steps (Fire Futex_enter c1 # mid) s) @
       [event_bytes (cx_pad c2) (event_new (cx_ktime c2) (saturating_sub (cx_ktime c2) (cx_ktime c1))
          (se_args e1 ! 0) t tid ty (current_comm c1))]"
proof -
  have o: "futex_opens (Fire Futex_enter c1) s tid
      \<lparr>fs_ts = cx_ktime c1, fs_uaddr = se_args e1 ! 0, fs_op = ucast (se_args e1 ! 1),
       fs_tgid = t, fs_comm = current_comm c1\<rparr>"
    using assms by simp
  have c: "futex_closes c2 (do_steps (Fire Futex_enter c1 # mid) s) tid"
    using assms by (simp add: futex_closes_def)
  show ?thesis
    using futex_spans.span_reported [OF o assms(8) c] assms(7,10)
    by (simp add: ring_append_def futex_report_def del: do_step.simps)
qed

theorem futex_span_reported_witness:
  "EVENTS (do_steps [Fire Futex_enter (futex_ctx 0x1000 128 0x700000008 100),
      Fire Futex_exit (futex_ctx 0 0 0x700000009 150),
      Fire Futex_exit (futex_ctx 0 0 0x700000008 350)] ex_state) =
   EVENTS (do_steps [Fire Futex_enter (futex_ctx 0x1000 128 0x700000008 100),
      Fire Futex_exit (futex_ctx 0 0 0x700000009 150)] ex_state) @
     [event_bytes (\<lambda>_. 0) (event_new 350 250 0x1000 7 8 EVENT_FUTEX_WAIT (replicate 16 97))]"
  using futex_span_reported [of ex_state 7 "futex_ctx 0x1000 128 0x700000008 100"
      "ex_futex 0x1000 128" 8 EVENT_FUTEX_WAIT "[Fire Futex_exit (futex_ctx 0 0 0x700000009 150)]"
      "futex_ctx 0 0 0x700000008 350"]
  by (simp add: current_tgid_def current_tid_def saturating_sub_def futex_wait_ops
      current_comm_def del: do_step.simps)

text \<open>C11: A block request issued by the target and completed later produces exactly one
  record, keyed by device and sector, with the identity of the issuing thread: whatever
  process is current when the completion fires, and with any steps in between on other
  keys.\<close>

theorem block_io_span_reported:
  assumes "target_tgid s = t" and "t \<noteq> 0" and "current_tgid c1 = t" and "cx_insert_ok c1"
    and "issue_evt c1 = Some e1" and "pack_block_key (rq_dev e1) (rq_sector e1) = key"
    and "\<forall>st\<in>set mid. \<not> blockio_touches st key"
    and "complete_evt c2 = Some e2" and "pack_block_key (rc_dev e2) (rc_sector e2) = key"
    and "cx_reserve_ok c2"
  shows "EVENTS (do_steps (Fire Block_rq_issue c1 # mid @ [Fire Block_rq_complete c2]) s) =
     EVENTS (do_steps (Fire Block_rq_issue c1 # mid) s) @
       [event_bytes (cx_pad c2) (event_new (cx_ktime c2) (saturating_sub (cx_ktime c2) (cx_ktime c1))
          key t (current_tid c1) EVENT_BLOCK_IO (current_comm c1))]"
proof -
  have o: "blockio_opens (Fire Block_rq_issue c1) s key
      \<lparr>io_ts = cx_ktime c1, io_tgid = t, io_tid = current_tid c1, io_comm = current_comm c1\<rparr>"
    using assms by simp
  have c: "blockio_closes c2 (do_steps (Fire Block_rq_issue c1 # mid) s) key"
    using assms by (simp add: blockio_closes_def)
  show ?thesis
    using blockio_spans.span_reported [OF o assms(7) c] assms(10)
    by (simp add: ring_append_def blockio_report_def del: do_step.simps)
qed

theorem block_io_span_reported_witness:
  "EVENTS (do_steps [Fire Block_rq_issue (issue_ctx 0x800001 88213 0x700000008 100),
      Fire Block_rq_complete (complete_ctx 0x800001 5 0 150),
      Fire Block_rq_complete (complete_ctx 0x800001 88213 0 350)] ex_state) =
   EVENTS (do_steps [Fire Block_rq_issue (issue_ctx 0x800001 88213 0x700000008 100),
      Fire Block_rq_complete (complete_ctx 0x800001 5 0 150)] ex_state) @
     [event_bytes (\<lambda>_. 0) (event_new 350 250 0x80000100015895 7 8 EVENT_BLOCK_IO (replicate 16 97))]"
  using block_io_span_reported [of ex_state 7 "issue_ctx 0x800001 88213 0x700000008 100"
      "ex_issue 0x800001 88213" "0x80000100015895"
      "[Fire Block_rq_complete (complete_ctx 0x800001 5 0 150)]"
      "complete_ctx 0x800001 88213 0 350" "ex_complete 0x800001 88213"]
  by (simp add: current_tgid_def current_tid_def saturating_sub_def pack_block_key_def
      current_comm_def del: do_step.simps)

text \<open>C33: Between loading and the first write of the target map no program changes any map
  or emits anything, whatever runs on the machine.\<close>

theorem silent_until_target_set:
  "\<forall>st\<in>set sts. \<exists>p ctx. st = Fire p ctx \<Longrightarrow> do_steps sts bpf_init = bpf_init"
proof (induction sts)
  case (Cons st sts)
  then obtain p ctx where "st = Fire p ctx" by auto
  then have "do_step st bpf_init = bpf_init"
    using fire_without_target [of bpf_init p ctx] by (simp add: bpf_init_def target_tgid_def)
  with Cons show ?case by simp
qed simp

theorem silent_until_target_set_witness:
  "do_steps [Fire Sched_switch (switch_ctx 8 1 9 0x700000008 100),
     Fire Futex_enter (futex_ctx 0x1000 128 0x700000008 100)] bpf_init = bpf_init"
  by (rule silent_until_target_set) simp

text \<open>C34: A process other than the target never opens a span: a program firing in its
  context can only close spans, never add or change an entry of an in-flight map.\<close>

theorem foreign_process_opens_nothing:
  assumes "current_tgid ctx \<noteq> target_tgid s"
  shows "BLOCK_START (snd (run_probe p ctx s)) \<subseteq>\<^sub>m BLOCK_START s
    \<and> FUTEX_START (snd (run_probe p ctx s)) \<subseteq>\<^sub>m FUTEX_START s
    \<and> BLOCKIO_START (snd (run_probe p ctx s)) \<subseteq>\<^sub>m BLOCKIO_START s"
  using fire_foreign [OF assms] by simp

theorem foreign_process_opens_nothing_witness:
  "FUTEX_START (snd (run_probe Futex_enter (futex_ctx 0x1000 128 0x600000008 100) ex_state))
     \<subseteq>\<^sub>m FUTEX_START ex_state"
  using foreign_process_opens_nothing [of "futex_ctx 0x1000 128 0x600000008 100" ex_state Futex_enter]
  by (simp add: current_tgid_def)

text \<open>C35: A program never disturbs what is in the ring: one invocation appends at most one
  record and drops it when the reservation fails.\<close>

theorem one_record_per_invocation:
  "\<exists>r. EVENTS (snd (run_probe p ctx s)) = EVENTS s @ r \<and> length r \<le> 1 \<and> (cx_reserve_ok ctx \<or> r = [])"
  using fire_appends [of p ctx s] by (auto simp: ring_append_def split: option.splits)

text \<open>C36: A program returns 1 exactly when its read of the tracepoint record fails after its
  own filter let the event pass, and then it has changed nothing; otherwise it returns 0.\<close>

theorem error_code_means_untouched:
  "run_probe p ctx s = (if read_fails p ctx s then (1, s) else (0, snd (run_probe p ctx s)))"
  using run_probe_code [of p ctx s] by (simp add: prod_eq_iff)

text \<open>C37: A futex operation counts as a wait exactly for FUTEX_WAIT and FUTEX_WAIT_BITSET and
  as a wake exactly for FUTEX_WAKE and FUTEX_WAKE_BITSET, each with any combination of
  the private and realtime-clock flags; no other 32-bit operation is reported.\<close>

theorem futex_operations_classified:
  "(futex_event_type op = Some EVENT_FUTEX_WAIT \<longleftrightarrow> op \<in> {0, 128, 256, 384, 9, 137, 265, 393})
   \<and> (futex_event_type op = Some EVENT_FUTEX_WAKE \<longleftrightarrow> op \<in> {1, 129, 257, 385, 10, 138, 266, 394})
   \<and> futex_event_type op \<in> {None, Some EVENT_FUTEX_WAIT, Some EVENT_FUTEX_WAKE}"
proof (intro conjI futex_wait_ops)
  show "futex_event_type op \<in> {None, Some EVENT_FUTEX_WAIT, Some EVENT_FUTEX_WAKE}"
    by (simp add: futex_event_type_def Let_def)
qed

section \<open>States of preempted and exited threads\<close>

text \<open>
  The kernel reports a preempted, still runnable thread as \<open>TASK_REPORT_MAX\<close> (0x100) in
  \<open>prev_state\<close>, not as 0: such a switch opens a span like a blocking one, although it is
  none (\<open>DESIGN.md\<close> wants it left out).
\<close>

lemma preempted_switch_opens_span:
  "sched_opens (Fire Sched_switch (switch_ctx 8 0x100 9 0x700000008 100)) ex_state 8
     \<lparr>bs_ts = 100, bs_tgid = 7, bs_comm = replicate 16 98\<rparr>"
  by (simp add: current_tgid_def TASK_RUNNING_def)

end
