(* ===== verification/Rust_Text.thy ===== *)
theory Rust_Text
  imports Rust_Prelude
begin

text \<open>
  Text in Rust: a \<open>String\<close> is its UTF-8 bytes, here a \<^typ>\<open>string\<close> (\<^typ>\<open>char\<close> is a byte).
  This theory models the formatting of integers the program uses (decimal, zero-padded,
  \<open>{:#x}\<close>) and \<open>String::from_utf8_lossy\<close>, with the lemmas that printed numbers read
  back and that the lossy conversion yields valid UTF-8 and keeps what is valid already.
\<close>

section \<open>Numbers\<close>

definition digit_char :: "nat \<Rightarrow> char" where
  "digit_char d = char_of (if d < 10 then 48 + d else 87 + d)"

fun show_base :: "nat \<Rightarrow> nat \<Rightarrow> string" where
  "show_base b n =
     (if b < 2 \<or> n < b then [digit_char n] else show_base b (n div b) @ [digit_char (n mod b)])"

declare show_base.simps [simp del]

definition dec :: "nat \<Rightarrow> string" where
  "dec n = show_base 10 n"

definition hex_alt :: "nat \<Rightarrow> string" where
  "hex_alt n = ''0x'' @ show_base 16 n"

definition pad_zero :: "nat \<Rightarrow> string \<Rightarrow> string" where
  "pad_zero w s = replicate (w - length s) (CHR ''0'') @ s"

text \<open>Zero padding of a signed number counts the sign into the width.\<close>

definition fmt_int_pad :: "nat \<Rightarrow> int \<Rightarrow> string" where
  "fmt_int_pad w i =
     (if i < 0 then CHR ''-'' # pad_zero (w - 1) (dec (nat (- i))) else pad_zero w (dec (nat i)))"

text \<open>Reading digits back.\<close>

definition digit_value :: "char \<Rightarrow> nat" where
  "digit_value c = (if of_char c < (58::nat) then of_char c - 48 else of_char c - 87)"

definition read_base :: "nat \<Rightarrow> string \<Rightarrow> nat" where
  "read_base b s = foldl (\<lambda>n c. n * b + digit_value c) 0 s"

section \<open>UTF-8\<close>

definition utf8_char_width :: "u8 \<Rightarrow> nat" where
  "utf8_char_width b =
     (if b < 0x80 then 1
      else if 0xC2 \<le> b \<and> b \<le> 0xDF then 2
      else if 0xE0 \<le> b \<and> b \<le> 0xEF then 3
      else if 0xF0 \<le> b \<and> b \<le> 0xF4 then 4
      else 0)"

definition safe_get :: "u8 list \<Rightarrow> nat \<Rightarrow> u8" where
  "safe_get bs i = (if i < length bs then bs ! i else 0)"

definition is_cont :: "u8 \<Rightarrow> bool" where
  "is_cont b \<longleftrightarrow> b AND 192 = 128"

definition second3 :: "u8 \<Rightarrow> u8 \<Rightarrow> bool" where
  "second3 b c \<longleftrightarrow>
     b = 0xE0 \<and> 0xA0 \<le> c \<and> c \<le> 0xBF \<or>
     0xE1 \<le> b \<and> b \<le> 0xEC \<and> 0x80 \<le> c \<and> c \<le> 0xBF \<or>
     b = 0xED \<and> 0x80 \<le> c \<and> c \<le> 0x9F \<or>
     0xEE \<le> b \<and> b \<le> 0xEF \<and> 0x80 \<le> c \<and> c \<le> 0xBF"

definition second4 :: "u8 \<Rightarrow> u8 \<Rightarrow> bool" where
  "second4 b c \<longleftrightarrow>
     b = 0xF0 \<and> 0x90 \<le> c \<and> c \<le> 0xBF \<or>
     0xF1 \<le> b \<and> b \<le> 0xF3 \<and> 0x80 \<le> c \<and> c \<le> 0xBF \<or>
     b = 0xF4 \<and> 0x80 \<le> c \<and> c \<le> 0x8F"

text \<open>
  One step of the decoder on non-empty input: whether a character was recognised, and how
  many bytes it consumed (those of the character, or of the maximal invalid prefix).
\<close>

definition utf8_step :: "u8 list \<Rightarrow> bool \<times> nat" where
  "utf8_step bs =
     (let b = safe_get bs 0; w = utf8_char_width b in
      if w = 1 then (True, 1)
      else if w = 2 then (if is_cont (safe_get bs 1) then (True, 2) else (False, 1))
      else if w = 3 then
        (if \<not> second3 b (safe_get bs 1) then (False, 1)
         else if \<not> is_cont (safe_get bs 2) then (False, 2) else (True, 3))
      else if w = 4 then
        (if \<not> second4 b (safe_get bs 1) then (False, 1)
         else if \<not> is_cont (safe_get bs 2) then (False, 2)
         else if \<not> is_cont (safe_get bs 3) then (False, 3) else (True, 4))
      else (False, 1))"

definition replacement_char :: "u8 list" where
  "replacement_char = [0xEF, 0xBF, 0xBD]"

lemma utf8_step_pos: "0 < snd (utf8_step bs)"
  by (simp add: utf8_step_def Let_def)

lemma utf8_step_consumes: "(ok, n) = utf8_step bs \<Longrightarrow> 0 < n"
  using utf8_step_pos [of bs] by (metis snd_conv)

function lossy_bytes :: "u8 list \<Rightarrow> u8 list" where
  "lossy_bytes bs =
     (if bs = [] then []
      else case utf8_step bs of (ok, n) \<Rightarrow>
        (if ok then take n bs else replacement_char) @ lossy_bytes (drop n bs))"
  by pat_completeness auto
termination
  by (relation "measure length") (auto simp: utf8_step_consumes)

declare lossy_bytes.simps [simp del]

definition byte_char :: "u8 \<Rightarrow> char" where
  "byte_char b = char_of (unat b)"

definition from_utf8_lossy :: "u8 list \<Rightarrow> string" where
  "from_utf8_lossy bs = map byte_char (lossy_bytes bs)"

text \<open>Valid UTF-8, by the grammar of RFC 3629.\<close>

definition utf8_tail :: "u8 \<Rightarrow> bool" where
  "utf8_tail b \<longleftrightarrow> 0x80 \<le> b \<and> b \<le> 0xBF"

fun utf8_char :: "u8 list \<Rightarrow> bool" where
  "utf8_char [a] = (a \<le> 0x7F)"
| "utf8_char [a, b] = (0xC2 \<le> a \<and> a \<le> 0xDF \<and> utf8_tail b)"
| "utf8_char [a, b, c] = (second3 a b \<and> utf8_tail c)"
| "utf8_char [a, b, c, d] = (second4 a b \<and> utf8_tail c \<and> utf8_tail d)"
| "utf8_char _ = False"

inductive utf8 :: "u8 list \<Rightarrow> bool" where
  utf8_Nil: "utf8 []"
| utf8_Cons: "utf8_char c \<Longrightarrow> utf8 bs \<Longrightarrow> utf8 (c @ bs)"

section \<open>Lemmas on numbers\<close>

lemma digit_value_char: "d < 16 \<Longrightarrow> digit_value (digit_char d) = d"
  by (auto simp: digit_value_def digit_char_def)

lemma read_base_append: "read_base b (s @ [c]) = read_base b s * b + digit_value c"
  by (simp add: read_base_def)

lemma read_show_base:
  assumes "2 \<le> b" and "b \<le> 16"
  shows "read_base b (show_base b n) = n"
  using assms
proof (induction b n rule: show_base.induct)
  case (1 b n)
  show ?case
  proof (cases "n < b")
    case True
    with 1 show ?thesis by (simp add: show_base.simps [of b n] read_base_def digit_value_char)
  next
    case False
    have "n mod b < 16" using 1(2,3) mod_less_divisor [of b n] by linarith
    with False 1 show ?thesis
      by (simp add: show_base.simps [of b n] read_base_append digit_value_char)
  qed
qed

lemma read_dec: "read_base 10 (dec n) = n"
  by (simp add: dec_def read_show_base)

lemma dec_inject [simp]: "dec m = dec n \<longleftrightarrow> m = n"
  by (metis read_dec)

lemma hex_alt_inject [simp]: "hex_alt m = hex_alt n \<longleftrightarrow> m = n"
proof
  assume "hex_alt m = hex_alt n"
  then have "read_base 16 (drop 2 (hex_alt m)) = read_base 16 (drop 2 (hex_alt n))" by simp
  then show "m = n" by (simp add: hex_alt_def read_show_base)
qed simp

lemma show_base_not_Nil [simp]: "show_base b n \<noteq> []"
  by (subst show_base.simps) simp

lemma set_show_base: "c \<in> set (show_base b n) \<Longrightarrow> b \<le> 16 \<Longrightarrow> 2 \<le> b \<Longrightarrow> \<exists>d<b. c = digit_char d"
proof (induction b n rule: show_base.induct)
  case (1 b n)
  have "n mod b < b" using 1(4) by simp
  then have "\<exists>d<b. digit_char (n mod b) = digit_char d" by blast
  with 1 show ?case by (cases "n < b") (auto simp: show_base.simps [of b n])
qed

section \<open>Lemmas on UTF-8\<close>

lemma is_cont_iff: "is_cont b \<longleftrightarrow> utf8_tail b"
proof -
  have lt: "unat b < 256" using unsigned_less [of b] by simp
  have "b AND 192 = push_bit 6 (drop_bit 6 b)"
  proof (rule bit_word_eqI)
    fix n assume "n < LENGTH(8)"
    then have "n \<in> {0,1,2,3,4,5,6,7}" by auto
    then show "bit (b AND 192) n = bit (push_bit 6 (drop_bit 6 b)) n"
      by (elim insertE) (simp_all add: bit_simps)
  qed
  then have "unat (b AND 192) = unat b div 64 * 64"
    using lt by (simp add: push_bit_eq_mult drop_bit_eq_div unat_div unat_word_ariths)
  moreover have "b AND 192 = 128 \<longleftrightarrow> unat (b AND 192) = 128"
    by (simp add: word_unat_eq_iff)
  ultimately show ?thesis using lt by (auto simp: is_cont_def utf8_tail_def word_le_nat_alt)
qed

text \<open>A step that succeeds consumed one character of the grammar, and every character of the
  grammar is recognised whole.\<close>

lemma utf8_width_cases:
  "utf8_char_width b = 1 \<longleftrightarrow> b \<le> 0x7F" "utf8_char_width b = 2 \<longleftrightarrow> 0xC2 \<le> b \<and> b \<le> 0xDF"
  "utf8_char_width b = 3 \<longleftrightarrow> 0xE0 \<le> b \<and> b \<le> 0xEF" "utf8_char_width b = 4 \<longleftrightarrow> 0xF0 \<le> b \<and> b \<le> 0xF4"
  unfolding utf8_char_width_def word_le_nat_alt word_less_nat_alt by auto

lemma second_lead: "second3 b c \<Longrightarrow> utf8_char_width b = 3" "second4 b c \<Longrightarrow> utf8_char_width b = 4"
  unfolding utf8_width_cases second3_def second4_def word_le_nat_alt by auto

lemma second_nonzero: "\<not> second3 b 0" "\<not> second4 b 0" "\<not> is_cont 0"
  by (simp_all add: second3_def second4_def is_cont_def)

lemma utf8_step_char: "utf8_char c \<Longrightarrow> utf8_step (c @ bs) = (True, length c)"
proof (cases c rule: utf8_char.cases)
  case (2 a b)
  moreover assume "utf8_char c"
  ultimately show ?thesis
    using utf8_width_cases(2) [of a] by (simp add: utf8_step_def safe_get_def is_cont_iff Let_def)
next
  case (1 a)
  moreover assume "utf8_char c"
  ultimately show ?thesis
    using utf8_width_cases(1) [of a] by (simp add: utf8_step_def safe_get_def Let_def)
qed (auto simp: utf8_step_def safe_get_def is_cont_iff Let_def dest: second_lead)

lemma safe_get_nonzero: "P (safe_get bs i) \<Longrightarrow> \<not> P 0 \<Longrightarrow> i < length bs \<and> P (bs ! i)"
  by (auto simp: safe_get_def split: if_splits)

lemma take_numerals:
  "1 < length bs \<Longrightarrow> take 2 bs = [bs ! 0, bs ! 1]"
  "2 < length bs \<Longrightarrow> take 3 bs = [bs ! 0, bs ! 1, bs ! 2]"
  "3 < length bs \<Longrightarrow> take 4 bs = [bs ! 0, bs ! 1, bs ! 2, bs ! 3]"
  by (simp_all add: list_eq_iff_nth_eq numeral_eq_Suc less_Suc_eq)

lemma utf8_step_ok:
  assumes "bs \<noteq> []" and "utf8_step bs = (True, n)"
  shows "n \<le> length bs \<and> utf8_char (take n bs)"
proof -
  let ?b = "bs ! 0" and ?g = "safe_get bs"
  have b: "?g 0 = ?b" using assms(1) by (simp add: safe_get_def)
  consider "n = 1" "utf8_char_width ?b = 1"
    | "n = 2" "utf8_char_width ?b = 2" "is_cont (?g 1)"
    | "n = 3" "second3 ?b (?g 1)" "is_cont (?g 2)"
    | "n = 4" "second4 ?b (?g 1)" "is_cont (?g 2)" "is_cont (?g 3)"
    using assms(2) b by (auto simp: utf8_step_def Let_def split: if_splits)
  then show ?thesis
  proof cases
    case 1
    then show ?thesis using assms(1) utf8_width_cases(1) [of ?b]
      by (cases bs) auto
  next
    case 2
    then show ?thesis
      using safe_get_nonzero [of is_cont bs 1] utf8_width_cases(2) [of ?b] second_nonzero
      by (simp add: take_numerals is_cont_iff)
  next
    case 3
    then show ?thesis
      using safe_get_nonzero [of "second3 ?b" bs 1] safe_get_nonzero [of is_cont bs 2] second_nonzero
      by (simp add: take_numerals is_cont_iff)
  next
    case 4
    then show ?thesis
      using safe_get_nonzero [of "second4 ?b" bs 1] safe_get_nonzero [of is_cont bs 2]
        safe_get_nonzero [of is_cont bs 3] second_nonzero
      by (simp add: take_numerals is_cont_iff)
  qed
qed

lemma utf8_replacement_char: "utf8_char replacement_char"
  by (simp add: replacement_char_def second3_def utf8_tail_def)

lemma utf8_lossy_bytes: "utf8 (lossy_bytes bs)"
proof (induction bs rule: lossy_bytes.induct)
  case (1 bs)
  show ?case
  proof (cases "bs = []")
    case False
    obtain ok n where step: "utf8_step bs = (ok, n)" by fastforce
    have "utf8_char (if ok then take n bs else replacement_char)"
      using utf8_step_ok [OF False, of n] step utf8_replacement_char by auto
    moreover have "utf8 (lossy_bytes (drop n bs))"
      using 1 [OF False] step by simp
    ultimately show ?thesis
      using False step by (simp add: lossy_bytes.simps [of bs] utf8_Cons)
  qed (simp add: lossy_bytes.simps utf8_Nil)
qed

lemma lossy_bytes_valid: "utf8 bs \<Longrightarrow> lossy_bytes bs = bs"
proof (induction rule: utf8.induct)
  case utf8_Nil
  show ?case by (simp add: lossy_bytes.simps)
next
  case (utf8_Cons c bs)
  have "c \<noteq> []" using utf8_Cons(1) by auto
  with utf8_Cons utf8_step_char [of c bs] show ?case
    by (simp add: lossy_bytes.simps [of "c @ bs"])
qed

lemma ascii_utf8: "\<forall>b\<in>set bs. b \<le> 0x7F \<Longrightarrow> utf8 bs"
proof (induction bs)
  case (Cons b bs)
  then show ?case using utf8_Cons [of "[b]" bs] by simp
qed (rule utf8_Nil)

lemma lossy_bytes_bound: "length (lossy_bytes bs) \<le> 3 * length bs"
proof (induction bs rule: lossy_bytes.induct)
  case (1 bs)
  show ?case
  proof (cases "bs = []")
    case False
    obtain ok n where step: "utf8_step bs = (ok, n)" by fastforce
    have n: "0 < n" using utf8_step_pos [of bs] step by simp
    have "length (lossy_bytes (drop n bs)) \<le> 3 * length (drop n bs)"
      using 1 [OF False] step by simp
    moreover have "length (if ok then take n bs else replacement_char) \<le> 3 * (length bs - length (drop n bs))"
      using False n by (cases bs) (auto simp: replacement_char_def min_def)
    ultimately show ?thesis
      using False step by (simp add: lossy_bytes.simps [of bs])
  qed (simp add: lossy_bytes.simps)
qed

lemma set_lossy_bytes: "set (lossy_bytes bs) \<subseteq> set bs \<union> set replacement_char"
proof (induction bs rule: lossy_bytes.induct)
  case (1 bs)
  show ?case
  proof (cases "bs = []")
    case False
    obtain ok n where step: "utf8_step bs = (ok, n)" by fastforce
    have "set (lossy_bytes (drop n bs)) \<subseteq> set (drop n bs) \<union> set replacement_char"
      using 1 [OF False] step by simp
    then show ?thesis
      using False step by (auto simp: lossy_bytes.simps [of bs] dest: in_set_dropD in_set_takeD)
  qed (simp add: lossy_bytes.simps)
qed

lemma byte_char_inject [simp]: "byte_char a = byte_char b \<longleftrightarrow> a = b"
proof
  assume "byte_char a = byte_char b"
  then have "of_char (byte_char a) = (of_char (byte_char b) :: nat)" by simp
  then show "a = b"
    using unsigned_less [of a, where 'a = nat] unsigned_less [of b, where 'a = nat]
    by (simp add: byte_char_def word_unat_eq_iff)
qed simp

end
