(* ===== verification/Trace_File.thy ===== *)
theory Trace_File
  imports Event_Schema Rust_Text
begin

text \<open>
  The user-space trace (\<open>whyslow-cli/src/trace.rs\<close>): the owned mirror of an event, the
  trace with its pair of clock anchors, the conversion of event times to wall-clock time
  and the file round trip. The JSON codec of \<open>serde_json\<close> and the file system calls are
  parameters.
\<close>

section \<open>Events\<close>

record trace_event =
  timestamp_ns :: u64
  duration_ns :: u64
  key :: u64
  pid :: u32
  tid :: u32
  event_type :: u8
  comm :: string

definition trace_event_from :: "event \<Rightarrow> trace_event" where
  "trace_event_from ev =
     (let comm_end = (case position (\<lambda>b. b = 0) (ev_comm ev) of
                        None \<Rightarrow> length (ev_comm ev) | Some i \<Rightarrow> i)
      in \<lparr>timestamp_ns = ev_timestamp_ns ev, duration_ns = ev_duration_ns ev, key = ev_key ev,
          pid = ev_pid ev, tid = ev_tid ev, event_type = ev_event_type ev,
          comm = from_utf8_lossy (take comm_end (ev_comm ev))\<rparr>)"

section \<open>The trace\<close>

record trace_file =
  realtime_anchor_ns :: u64
  monotonic_anchor_ns :: u64
  events :: "trace_event list"

record timespec =
  tv_sec :: i64
  tv_nsec :: i64

text \<open>
  \<open>clock_gettime\<close> fills the zeroed struct; its outcome is the argument. The product and
  the sum panic on overflow when the build checks for it (\<^const>\<open>None\<close>) and wrap otherwise.
\<close>

definition clock_ns :: "bool \<Rightarrow> timespec \<Rightarrow> u64 option" where
  "clock_ns overflow_checks ts =
     (let secs = tv_sec ts * 1000000000 in
      if overflow_checks \<and>
         (2 ^ 64 \<le> unat (tv_sec ts) * 1000000000 \<or> 2 ^ 64 \<le> unat secs + unat (tv_nsec ts))
      then None else Some (secs + tv_nsec ts))"

definition capture_anchor :: "bool \<Rightarrow> timespec \<Rightarrow> timespec \<Rightarrow> (u64 \<times> u64) option" where
  "capture_anchor overflow_checks rt mt =
     (case clock_ns overflow_checks rt of
        None \<Rightarrow> None
      | Some realtime \<Rightarrow>
          (case clock_ns overflow_checks mt of
             None \<Rightarrow> None
           | Some monotonic \<Rightarrow> Some (realtime, monotonic)))"

definition wall_ns_for :: "trace_file \<Rightarrow> u64 \<Rightarrow> u64" where
  "wall_ns_for tf event_ts_ns =
     (let delta = uint event_ts_ns - uint (monotonic_anchor_ns tf)
      in word_of_int (max (uint (realtime_anchor_ns tf) + delta) 0))"

section \<open>Files\<close>

text \<open>
  A file system maps paths to contents. The operating system answers a create or open
  with an error message or none, and an open of a missing file with \<open>enoent\<close>. The
  serializer gives the bytes it wrote and its error, if any; creating a file truncates
  it, so a failed serialization leaves what was written.
\<close>

type_synonym files = "string \<rightharpoonup> string"

record os_files =
  create_error :: "string \<Rightarrow> string option"
  open_error :: "string \<Rightarrow> string option"
  enoent :: string

record codec =
  to_writer_pretty :: "trace_file \<Rightarrow> string \<times> string option"
  from_reader :: "string \<Rightarrow> string + trace_file"

definition write_to ::
  "os_files \<Rightarrow> codec \<Rightarrow> trace_file \<Rightarrow> string \<Rightarrow> files \<Rightarrow> (string + unit) \<times> files" where
  "write_to os cd tf path fs =
     (case create_error os path of
        Some e \<Rightarrow> (Inl e, fs)
      | None \<Rightarrow>
          (case to_writer_pretty cd tf of
             (written, Some e) \<Rightarrow> (Inl e, fs(path \<mapsto> written))
           | (written, None) \<Rightarrow> (Inr (), fs(path \<mapsto> written))))"

definition read_from :: "os_files \<Rightarrow> codec \<Rightarrow> string \<Rightarrow> files \<Rightarrow> string + trace_file" where
  "read_from os cd path fs =
     (case open_error os path of
        Some e \<Rightarrow> Inl e
      | None \<Rightarrow>
          (case fs path of None \<Rightarrow> Inl (enoent os) | Some content \<Rightarrow> from_reader cd content))"

section \<open>Lemmas\<close>

lemma trace_event_from_sel [simp]:
  "timestamp_ns (trace_event_from ev) = ev_timestamp_ns ev"
  "duration_ns (trace_event_from ev) = ev_duration_ns ev"
  "key (trace_event_from ev) = ev_key ev" "pid (trace_event_from ev) = ev_pid ev"
  "tid (trace_event_from ev) = ev_tid ev" "event_type (trace_event_from ev) = ev_event_type ev"
  by (simp_all add: trace_event_from_def Let_def)

lemma comm_trace_event_from:
  "comm (trace_event_from ev) = from_utf8_lossy (takeWhile (\<lambda>b. b \<noteq> 0) (ev_comm ev))"
proof -
  have "take (case position (\<lambda>b. b = 0) bs of None \<Rightarrow> length bs | Some i \<Rightarrow> i) bs
      = takeWhile (\<lambda>b. b \<noteq> 0) bs" for bs :: "u8 list"
    by (induction bs) (auto split: option.splits)
  then show ?thesis by (simp add: trace_event_from_def Let_def)
qed

lemma clock_ns_exact:
  assumes "unat (tv_sec ts) * 1000000000 + unat (tv_nsec ts) < 2 ^ 64"
  shows "\<exists>r. clock_ns b ts = Some r \<and> unat r = unat (tv_sec ts) * 1000000000 + unat (tv_nsec ts)"
proof -
  have "unat (tv_sec ts * 1000000000) = unat (tv_sec ts) * 1000000000"
    using assms by (subst unat_mult_lem [THEN iffD1]) simp_all
  then show ?thesis
    using assms unat_add_lem [THEN iffD1, of "tv_sec ts * 1000000000" "tv_nsec ts"]
    by (simp add: clock_ns_def Let_def)
qed

lemma uint_wall_ns_for:
  assumes "uint (realtime_anchor_ns tf) + uint t < 2 ^ 64 + uint (monotonic_anchor_ns tf)"
  shows "uint (wall_ns_for tf t) =
    max (uint (realtime_anchor_ns tf) + uint t - uint (monotonic_anchor_ns tf)) 0"
proof -
  let ?v = "max (uint (realtime_anchor_ns tf) +
      (uint t - uint (monotonic_anchor_ns tf))) 0"
  have "0 \<le> ?v" "?v < 2 ^ 64" using assms by simp_all
  then have "uint (word_of_int ?v :: u64) = ?v"
    by (simp add: uint_word_of_int)
  then show ?thesis by (simp add: wall_ns_for_def Let_def algebra_simps)
qed

section \<open>Properties\<close>

text \<open>C25: Converting a kernel event keeps every number, and its comm becomes valid UTF-8 text
  without a NUL: the bytes before the first NUL, byte for byte when they are valid UTF-8
  already, at most 48 bytes in any case.\<close>

theorem trace_event_text_valid:
  assumes "length (ev_comm ev) = TASK_COMM_LEN"
  shows "timestamp_ns (trace_event_from ev) = ev_timestamp_ns ev \<and> duration_ns (trace_event_from ev) = ev_duration_ns ev
    \<and> key (trace_event_from ev) = ev_key ev \<and> pid (trace_event_from ev) = ev_pid ev
    \<and> tid (trace_event_from ev) = ev_tid ev \<and> event_type (trace_event_from ev) = ev_event_type ev
    \<and> (\<exists>bs. comm (trace_event_from ev) = map byte_char bs \<and> utf8 bs \<and> 0 \<notin> set bs \<and> length bs \<le> 48
    \<and> (utf8 (takeWhile (\<lambda>b. b \<noteq> 0) (ev_comm ev)) \<longrightarrow> bs = takeWhile (\<lambda>b. b \<noteq> 0) (ev_comm ev)))"
proof -
  let ?c = "takeWhile (\<lambda>b. b \<noteq> 0) (ev_comm ev)"
  have "length ?c \<le> 16"
    using assms length_takeWhile_le [of "\<lambda>b. b \<noteq> 0" "ev_comm ev"] by (simp add: TASK_COMM_LEN_def)
  then have "length (lossy_bytes ?c) \<le> 48" using lossy_bytes_bound [of ?c] by simp
  moreover have "0 \<notin> set (lossy_bytes ?c)"
    using set_lossy_bytes [of ?c] by (auto simp: replacement_char_def dest: set_takeWhileD)
  ultimately have "\<exists>bs. comm (trace_event_from ev) = map byte_char bs \<and> utf8 bs \<and> 0 \<notin> set bs \<and> length bs \<le> 48
    \<and> (utf8 ?c \<longrightarrow> bs = ?c)"
    using utf8_lossy_bytes lossy_bytes_valid
    by (intro exI [of _ "lossy_bytes ?c"]) (simp add: comm_trace_event_from from_utf8_lossy_def)
  then show ?thesis by simp
qed

theorem trace_event_text_valid_witness:
  "\<exists>bs. comm (trace_event_from (event_new 0 0 0 1 1 0 (99 # 255 # replicate 14 0))) = map byte_char bs
     \<and> utf8 bs"
  using trace_event_text_valid [of "event_new 0 0 0 1 1 0 (99 # 255 # replicate 14 0)"]
  by (auto simp: TASK_COMM_LEN_def)

text \<open>C24: Recovered wall-clock times are, as long as they fit in 64 bits, the event times shifted
  by the distance of the two anchors, clamped at the epoch: the anchor itself maps to the realtime anchor, and the
  order of events is the order of their wall-clock times.\<close>

theorem wall_clock_recovered:
  assumes "uint (realtime_anchor_ns tf) + uint t2 < 2 ^ 64 + uint (monotonic_anchor_ns tf)"
    and "t1 \<le> t2"
  shows "wall_ns_for tf (monotonic_anchor_ns tf) = realtime_anchor_ns tf
    \<and> uint (wall_ns_for tf t2) = max (uint (realtime_anchor_ns tf) + uint t2
          - uint (monotonic_anchor_ns tf)) 0
    \<and> wall_ns_for tf t1 \<le> wall_ns_for tf t2"
proof -
  have t1: "uint (realtime_anchor_ns tf) + uint t1 < 2 ^ 64 + uint (monotonic_anchor_ns tf)"
    using assms by (simp add: word_le_def)
  have "wall_ns_for tf t1 \<le> wall_ns_for tf t2"
    using uint_wall_ns_for [OF t1] uint_wall_ns_for [OF assms(1)] assms(2)
    by (simp add: word_le_def)
  moreover have "wall_ns_for tf (monotonic_anchor_ns tf) = realtime_anchor_ns tf"
    by (simp add: wall_ns_for_def)
  ultimately show ?thesis using uint_wall_ns_for [OF assms(1)] by simp
qed

theorem wall_clock_recovered_witness:
  "wall_ns_for \<lparr>realtime_anchor_ns = 1700000000000000000, monotonic_anchor_ns = 5000, events = []\<rparr> 6000
     \<le> wall_ns_for \<lparr>realtime_anchor_ns = 1700000000000000000, monotonic_anchor_ns = 5000, events = []\<rparr> 7000"
  using wall_clock_recovered [of
      "\<lparr>realtime_anchor_ns = 1700000000000000000, monotonic_anchor_ns = 5000, events = []\<rparr>" 7000 6000]
  by simp

end
