(* ===== verification/Causal.thy ===== *)
theory Causal
  imports Trace_File
begin

text \<open>
  Happens-before inference (first half of \<open>whyslow-cli/src/causal.rs\<close>): the partition of a
  trace by event type, the two bounded-window joins and the two classifications built on
  them. The joins share one contract, the locale \<open>window_join\<close>: the answer is admissible,
  nearest, and missing only when nothing is admissible.
\<close>

section \<open>Constants and the partition\<close>

definition MATCH_WINDOW_NS :: u64 where "MATCH_WINDOW_NS = 5000000"

definition MAX_CHAIN_DEPTH :: u32 where "MAX_CHAIN_DEPTH = 8"

record typed =
  t_block :: "trace_event list"
  t_futex_wait :: "trace_event list"
  t_futex_wake :: "trace_event list"
  t_block_io :: "trace_event list"

definition typed_push :: "typed \<Rightarrow> trace_event \<Rightarrow> typed" where
  "typed_push t e =
     (if event_type e = EVENT_SCHED_BLOCK then t\<lparr>t_block := t_block t @ [e]\<rparr>
      else if event_type e = EVENT_FUTEX_WAIT then t\<lparr>t_futex_wait := t_futex_wait t @ [e]\<rparr>
      else if event_type e = EVENT_FUTEX_WAKE then t\<lparr>t_futex_wake := t_futex_wake t @ [e]\<rparr>
      else if event_type e = EVENT_BLOCK_IO then t\<lparr>t_block_io := t_block_io t @ [e]\<rparr>
      else t)"

definition typed_partition :: "trace_event list \<Rightarrow> typed" where
  "typed_partition evs =
     foldl typed_push \<lparr>t_block = [], t_futex_wait = [], t_futex_wake = [], t_block_io = []\<rparr> evs"

section \<open>Joins\<close>

definition nearest_preceding ::
  "trace_event list \<Rightarrow> u64 \<Rightarrow> (trace_event \<Rightarrow> bool) \<Rightarrow> trace_event option" where
  "nearest_preceding candidates anchor_ts pred =
     max_by_key timestamp_ns
       (filter (\<lambda>e. pred e \<and> timestamp_ns e \<le> anchor_ts
                    \<and> anchor_ts - timestamp_ns e \<le> MATCH_WINDOW_NS) candidates)"

definition nearest_following ::
  "trace_event list \<Rightarrow> u64 \<Rightarrow> (trace_event \<Rightarrow> bool) \<Rightarrow> trace_event option" where
  "nearest_following candidates anchor_ts pred =
     min_by_key timestamp_ns
       (filter (\<lambda>e. pred e \<and> anchor_ts \<le> timestamp_ns e
                    \<and> timestamp_ns e - anchor_ts \<le> MATCH_WINDOW_NS) candidates)"

section \<open>Causes\<close>

datatype cause = Futex trace_event | BlockIo trace_event | Unknown

definition classify_resume_cause :: "u32 \<Rightarrow> u64 \<Rightarrow> typed \<Rightarrow> cause" where
  "classify_resume_cause t resume_ts ty =
     (let fw = nearest_following (t_futex_wait ty) resume_ts (\<lambda>e. tid e = t);
          io = nearest_preceding (t_block_io ty) resume_ts (\<lambda>e. tid e = t)
      in case (fw, io) of
           (Some f, Some i) \<Rightarrow>
             (let f_dist = saturating_sub (timestamp_ns f) resume_ts;
                  io_dist = saturating_sub resume_ts (timestamp_ns i)
              in if f_dist \<le> io_dist then Futex f else BlockIo i)
         | (Some f, None) \<Rightarrow> Futex f
         | (None, Some i) \<Rightarrow> BlockIo i
         | (None, None) \<Rightarrow> Unknown)"

definition classify_prior_cause :: "u32 \<Rightarrow> u64 \<Rightarrow> typed \<Rightarrow> cause" where
  "classify_prior_cause t anchor_ts ty =
     (let fw = nearest_preceding (t_futex_wait ty) anchor_ts (\<lambda>e. tid e = t);
          io = nearest_preceding (t_block_io ty) anchor_ts (\<lambda>e. tid e = t)
      in case (fw, io) of
           (Some f, Some i) \<Rightarrow> if timestamp_ns i \<le> timestamp_ns f then Futex f else BlockIo i
         | (Some f, None) \<Rightarrow> Futex f
         | (None, Some i) \<Rightarrow> BlockIo i
         | (None, None) \<Rightarrow> Unknown)"

section \<open>The contract of a join\<close>

text \<open>
  \<open>side a t\<close> says that time \<open>t\<close> lies on the join's side of the anchor \<open>a\<close>, \<open>dist a t\<close> how far.
\<close>

locale window_join =
  fixes join :: "trace_event list \<Rightarrow> u64 \<Rightarrow> (trace_event \<Rightarrow> bool) \<Rightarrow> trace_event option"
    and side :: "u64 \<Rightarrow> u64 \<Rightarrow> bool"
    and dist :: "u64 \<Rightarrow> u64 \<Rightarrow> nat"
  assumes join_sound: "join cs a P = Some e \<Longrightarrow>
      e \<in> set cs \<and> P e \<and> side a (timestamp_ns e) \<and> dist a (timestamp_ns e) \<le> unat MATCH_WINDOW_NS"
    and join_nearest: "join cs a P = Some e \<Longrightarrow> e' \<in> set cs \<Longrightarrow> P e' \<Longrightarrow> side a (timestamp_ns e') \<Longrightarrow>
      dist a (timestamp_ns e) \<le> dist a (timestamp_ns e')"
    and join_complete: "join cs a P = None \<Longrightarrow> e \<in> set cs \<Longrightarrow> P e \<Longrightarrow> side a (timestamp_ns e) \<Longrightarrow>
      unat MATCH_WINDOW_NS < dist a (timestamp_ns e)"
begin

lemma join_None_iff:
  "join cs a P = None \<longleftrightarrow>
     (\<forall>e\<in>set cs. P e \<longrightarrow> side a (timestamp_ns e) \<longrightarrow> unat MATCH_WINDOW_NS < dist a (timestamp_ns e))"
  using join_complete join_sound by (metis linorder_not_le option.exhaust)

lemma join_Some_ex:
  assumes "e \<in> set cs" "P e" "side a (timestamp_ns e)" "dist a (timestamp_ns e) \<le> unat MATCH_WINDOW_NS"
  shows "\<exists>e'. join cs a P = Some e' \<and> dist a (timestamp_ns e') \<le> dist a (timestamp_ns e)"
  using assms join_None_iff [of cs a P] join_nearest [of cs a P] by (cases "join cs a P") auto

text \<open>More candidates can only bring the answer closer.\<close>

lemma join_mono:
  assumes "join cs a P = Some e" and "set cs \<subseteq> set cs'"
  shows "\<exists>e'. join cs' a P = Some e' \<and> dist a (timestamp_ns e') \<le> dist a (timestamp_ns e)"
  using join_sound [OF assms(1)] assms(2) by (intro join_Some_ex) auto

end

definition before :: "u64 \<Rightarrow> u64 \<Rightarrow> bool" where "before a t \<longleftrightarrow> t \<le> a"
definition after :: "u64 \<Rightarrow> u64 \<Rightarrow> bool" where "after a t \<longleftrightarrow> a \<le> t"
definition age :: "u64 \<Rightarrow> u64 \<Rightarrow> nat" where "age a t = unat a - unat t"
definition lag :: "u64 \<Rightarrow> u64 \<Rightarrow> nat" where "lag a t = unat t - unat a"

lemma age_window: "t \<le> a \<Longrightarrow> a - t \<le> w \<longleftrightarrow> age a t \<le> unat w"
  by (simp add: age_def word_le_nat_alt unat_sub)

lemma lag_window: "a \<le> t \<Longrightarrow> t - a \<le> w \<longleftrightarrow> lag a t \<le> unat w"
  by (simp add: lag_def word_le_nat_alt unat_sub)

interpretation preceding: window_join nearest_preceding before age
proof
  fix cs a P e
  assume "nearest_preceding cs a P = Some e"
  from max_by_key_max [OF this [unfolded nearest_preceding_def]]
  have e: "e \<in> set cs" "P e" "timestamp_ns e \<le> a" "a - timestamp_ns e \<le> MATCH_WINDOW_NS"
    and max: "\<And>x. x \<in> set cs \<Longrightarrow> P x \<Longrightarrow> timestamp_ns x \<le> a \<Longrightarrow> a - timestamp_ns x \<le> MATCH_WINDOW_NS \<Longrightarrow>
      timestamp_ns x \<le> timestamp_ns e"
    by auto
  show "e \<in> set cs \<and> P e \<and> before a (timestamp_ns e) \<and> age a (timestamp_ns e) \<le> unat MATCH_WINDOW_NS"
    using e age_window by (auto simp: before_def)
  fix e' assume e': "e' \<in> set cs" "P e'" "before a (timestamp_ns e')"
  show "age a (timestamp_ns e) \<le> age a (timestamp_ns e')"
  proof (cases "a - timestamp_ns e' \<le> MATCH_WINDOW_NS")
    case True
    then have "timestamp_ns e' \<le> timestamp_ns e" using max e' by (simp add: before_def)
    then show ?thesis by (simp add: age_def word_le_nat_alt)
  next
    case False
    then show ?thesis using e e' age_window
      by (metis before_def le_trans linorder_not_le nat_le_linear)
  qed
next
  fix cs a P e
  assume "nearest_preceding cs a P = None" "e \<in> set cs" "P e" "before a (timestamp_ns e)"
  then show "unat MATCH_WINDOW_NS < age a (timestamp_ns e)"
    using age_window [of "timestamp_ns e" a MATCH_WINDOW_NS]
    by (auto simp: nearest_preceding_def filter_empty_conv before_def)
qed

interpretation following: window_join nearest_following after lag
proof
  fix cs a P e
  assume "nearest_following cs a P = Some e"
  from min_by_key_min [OF this [unfolded nearest_following_def]]
  have e: "e \<in> set cs" "P e" "a \<le> timestamp_ns e" "timestamp_ns e - a \<le> MATCH_WINDOW_NS"
    and min: "\<And>x. x \<in> set cs \<Longrightarrow> P x \<Longrightarrow> a \<le> timestamp_ns x \<Longrightarrow> timestamp_ns x - a \<le> MATCH_WINDOW_NS \<Longrightarrow>
      timestamp_ns e \<le> timestamp_ns x"
    by auto
  show "e \<in> set cs \<and> P e \<and> after a (timestamp_ns e) \<and> lag a (timestamp_ns e) \<le> unat MATCH_WINDOW_NS"
    using e lag_window by (auto simp: after_def)
  fix e' assume e': "e' \<in> set cs" "P e'" "after a (timestamp_ns e')"
  show "lag a (timestamp_ns e) \<le> lag a (timestamp_ns e')"
  proof (cases "timestamp_ns e' - a \<le> MATCH_WINDOW_NS")
    case True
    then have "timestamp_ns e \<le> timestamp_ns e'" using min e' by (simp add: after_def)
    then show ?thesis by (simp add: lag_def word_le_nat_alt)
  next
    case False
    then show ?thesis using e e' lag_window
      by (metis after_def le_trans linorder_not_le nat_le_linear)
  qed
next
  fix cs a P e
  assume "nearest_following cs a P = None" "e \<in> set cs" "P e" "after a (timestamp_ns e)"
  then show "unat MATCH_WINDOW_NS < lag a (timestamp_ns e)"
    using lag_window [of a "timestamp_ns e" MATCH_WINDOW_NS]
    by (auto simp: nearest_following_def filter_empty_conv after_def)
qed

section \<open>Lemmas\<close>

lemma foldl_typed_push:
  "foldl typed_push t evs =
     \<lparr>t_block = t_block t @ filter (\<lambda>e. event_type e = EVENT_SCHED_BLOCK) evs,
      t_futex_wait = t_futex_wait t @ filter (\<lambda>e. event_type e = EVENT_FUTEX_WAIT) evs,
      t_futex_wake = t_futex_wake t @ filter (\<lambda>e. event_type e = EVENT_FUTEX_WAKE) evs,
      t_block_io = t_block_io t @ filter (\<lambda>e. event_type e = EVENT_BLOCK_IO) evs\<rparr>"
  by (induction evs arbitrary: t) (auto simp: typed_push_def event_types)

lemma typed_partition_filter:
  "t_block (typed_partition evs) = filter (\<lambda>e. event_type e = EVENT_SCHED_BLOCK) evs"
  "t_futex_wait (typed_partition evs) = filter (\<lambda>e. event_type e = EVENT_FUTEX_WAIT) evs"
  "t_futex_wake (typed_partition evs) = filter (\<lambda>e. event_type e = EVENT_FUTEX_WAKE) evs"
  "t_block_io (typed_partition evs) = filter (\<lambda>e. event_type e = EVENT_BLOCK_IO) evs"
  by (simp_all add: typed_partition_def foldl_typed_push)

text \<open>The classifications by cases on the two joins.\<close>

lemma classify_resume_Futex:
  "classify_resume_cause t ts ty = Futex f \<longleftrightarrow>
     nearest_following (t_futex_wait ty) ts (\<lambda>e. tid e = t) = Some f \<and>
     (\<forall>i. nearest_preceding (t_block_io ty) ts (\<lambda>e. tid e = t) = Some i \<longrightarrow>
        lag ts (timestamp_ns f) \<le> age ts (timestamp_ns i))"
  by (auto simp: classify_resume_cause_def Let_def lag_def age_def word_le_nat_alt word_reading
      split: option.splits if_splits)

lemma classify_resume_BlockIo:
  "classify_resume_cause t ts ty = BlockIo i \<longleftrightarrow>
     nearest_preceding (t_block_io ty) ts (\<lambda>e. tid e = t) = Some i \<and>
     (\<forall>f. nearest_following (t_futex_wait ty) ts (\<lambda>e. tid e = t) = Some f \<longrightarrow>
        age ts (timestamp_ns i) < lag ts (timestamp_ns f))"
  by (auto simp: classify_resume_cause_def Let_def lag_def age_def word_le_nat_alt word_reading
      split: option.splits if_splits)

lemma classify_resume_Unknown:
  "classify_resume_cause t ts ty = Unknown \<longleftrightarrow>
     nearest_following (t_futex_wait ty) ts (\<lambda>e. tid e = t) = None \<and>
     nearest_preceding (t_block_io ty) ts (\<lambda>e. tid e = t) = None"
  by (auto simp: classify_resume_cause_def Let_def split: option.splits if_splits)

lemma classify_prior_Futex:
  "classify_prior_cause t ts ty = Futex f \<longleftrightarrow>
     nearest_preceding (t_futex_wait ty) ts (\<lambda>e. tid e = t) = Some f \<and>
     (\<forall>i. nearest_preceding (t_block_io ty) ts (\<lambda>e. tid e = t) = Some i \<longrightarrow>
        timestamp_ns i \<le> timestamp_ns f)"
  by (auto simp: classify_prior_cause_def Let_def split: option.splits if_splits)

lemma classify_prior_BlockIo:
  "classify_prior_cause t ts ty = BlockIo i \<longleftrightarrow>
     nearest_preceding (t_block_io ty) ts (\<lambda>e. tid e = t) = Some i \<and>
     (\<forall>f. nearest_preceding (t_futex_wait ty) ts (\<lambda>e. tid e = t) = Some f \<longrightarrow>
        timestamp_ns f < timestamp_ns i)"
  by (auto simp: classify_prior_cause_def Let_def split: option.splits if_splits)

lemma classify_prior_Unknown:
  "classify_prior_cause t ts ty = Unknown \<longleftrightarrow>
     nearest_preceding (t_futex_wait ty) ts (\<lambda>e. tid e = t) = None \<and>
     nearest_preceding (t_block_io ty) ts (\<lambda>e. tid e = t) = None"
  by (auto simp: classify_prior_cause_def Let_def split: option.splits if_splits)

lemma resume_Futex_closest:
  assumes "classify_resume_cause t ts ty = Futex f"
  shows "f \<in> set (t_futex_wait ty) \<and> tid f = t \<and> ts \<le> timestamp_ns f \<and> lag ts (timestamp_ns f) \<le> 5000000
    \<and> (\<forall>g\<in>set (t_futex_wait ty). tid g = t \<longrightarrow> ts \<le> timestamp_ns g \<longrightarrow>
         lag ts (timestamp_ns f) \<le> lag ts (timestamp_ns g))
    \<and> (\<forall>i\<in>set (t_block_io ty). tid i = t \<longrightarrow> timestamp_ns i \<le> ts \<longrightarrow>
         lag ts (timestamp_ns f) \<le> age ts (timestamp_ns i))"
proof -
  let ?P = "\<lambda>e. tid e = t"
  have f: "nearest_following (t_futex_wait ty) ts ?P = Some f"
    and io: "\<And>i. nearest_preceding (t_block_io ty) ts ?P = Some i \<Longrightarrow>
      lag ts (timestamp_ns f) \<le> age ts (timestamp_ns i)"
    using assms by (auto simp: classify_resume_Futex)
  note s = following.join_sound [OF f] following.join_nearest [OF f]
  have "lag ts (timestamp_ns f) \<le> age ts (timestamp_ns i)"
    if i: "i \<in> set (t_block_io ty)" "tid i = t" "timestamp_ns i \<le> ts" for i
  proof (cases "nearest_preceding (t_block_io ty) ts ?P")
    case None
    then show ?thesis
      using preceding.join_complete [OF None i(1)] i s(1) by (simp add: before_def)
  next
    case (Some j)
    then show ?thesis
      using preceding.join_nearest [OF Some i(1)] i io [OF Some] by (simp add: before_def)
  qed
  then show ?thesis using s by (auto simp: after_def MATCH_WINDOW_NS_def)
qed

lemma resume_BlockIo_closest:
  assumes "classify_resume_cause t ts ty = BlockIo i"
  shows "i \<in> set (t_block_io ty) \<and> tid i = t \<and> timestamp_ns i \<le> ts \<and> age ts (timestamp_ns i) \<le> 5000000
    \<and> (\<forall>j\<in>set (t_block_io ty). tid j = t \<longrightarrow> timestamp_ns j \<le> ts \<longrightarrow>
         age ts (timestamp_ns i) \<le> age ts (timestamp_ns j))
    \<and> (\<forall>f\<in>set (t_futex_wait ty). tid f = t \<longrightarrow> ts \<le> timestamp_ns f \<longrightarrow>
         age ts (timestamp_ns i) < lag ts (timestamp_ns f))"
proof -
  let ?P = "\<lambda>e. tid e = t"
  have i: "nearest_preceding (t_block_io ty) ts ?P = Some i"
    and fw: "\<And>f. nearest_following (t_futex_wait ty) ts ?P = Some f \<Longrightarrow>
      age ts (timestamp_ns i) < lag ts (timestamp_ns f)"
    using assms by (auto simp: classify_resume_BlockIo)
  note s = preceding.join_sound [OF i] preceding.join_nearest [OF i]
  have "age ts (timestamp_ns i) < lag ts (timestamp_ns f)"
    if f: "f \<in> set (t_futex_wait ty)" "tid f = t" "ts \<le> timestamp_ns f" for f
  proof (cases "nearest_following (t_futex_wait ty) ts ?P")
    case None
    then show ?thesis
      using following.join_complete [OF None f(1)] f s(1) by (simp add: after_def)
  next
    case (Some g)
    then show ?thesis
      using following.join_nearest [OF Some f(1)] f fw [OF Some] by (simp add: after_def)
  qed
  then show ?thesis using s by (auto simp: before_def MATCH_WINDOW_NS_def)
qed

lemma resume_Unknown_none:
  assumes "classify_resume_cause t ts ty = Unknown"
  shows "(\<forall>f\<in>set (t_futex_wait ty). tid f = t \<longrightarrow> ts \<le> timestamp_ns f \<longrightarrow> 5000000 < lag ts (timestamp_ns f))
    \<and> (\<forall>i\<in>set (t_block_io ty). tid i = t \<longrightarrow> timestamp_ns i \<le> ts \<longrightarrow> 5000000 < age ts (timestamp_ns i))"
  using assms
  by (auto simp: classify_resume_Unknown following.join_None_iff preceding.join_None_iff after_def
      before_def MATCH_WINDOW_NS_def)

text \<open>The events of a thread that may explain what it did before a point in time.\<close>

definition prior_event :: "typed \<Rightarrow> u32 \<Rightarrow> u64 \<Rightarrow> trace_event \<Rightarrow> bool" where
  "prior_event ty t ts e \<longleftrightarrow> e \<in> set (t_futex_wait ty) \<union> set (t_block_io ty) \<and> tid e = t
     \<and> timestamp_ns e \<le> ts \<and> age ts (timestamp_ns e) \<le> 5000000"

lemma prior_latest:
  assumes "classify_prior_cause t ts ty = Futex c \<or> classify_prior_cause t ts ty = BlockIo c"
  shows "prior_event ty t ts c \<and> (\<forall>e. prior_event ty t ts e \<longrightarrow> timestamp_ns e \<le> timestamp_ns c)"
proof -
  let ?P = "\<lambda>e. tid e = t" and ?np = nearest_preceding
  have c: "?np (t_futex_wait ty) ts ?P = Some c \<or> ?np (t_block_io ty) ts ?P = Some c"
    using assms by (auto simp: classify_prior_Futex classify_prior_BlockIo)
  have best: "timestamp_ns d \<le> timestamp_ns c"
    if "?np (t_futex_wait ty) ts ?P = Some d \<or> ?np (t_block_io ty) ts ?P = Some d" for d
    using assms that by (auto simp: classify_prior_Futex classify_prior_BlockIo)
  have "timestamp_ns e \<le> timestamp_ns c" if e: "prior_event ty t ts e" for e
  proof -
    obtain cs where cs: "cs = t_futex_wait ty \<or> cs = t_block_io ty" "e \<in> set cs"
      using e by (auto simp: prior_event_def)
    moreover have "tid e = t" "before ts (timestamp_ns e)" "age ts (timestamp_ns e) \<le> unat MATCH_WINDOW_NS"
      using e by (auto simp: prior_event_def before_def MATCH_WINDOW_NS_def)
    ultimately obtain d where d: "?np cs ts ?P = Some d" "age ts (timestamp_ns d) \<le> age ts (timestamp_ns e)"
      using preceding.join_Some_ex [of e cs ?P ts] by auto
    moreover have "timestamp_ns d \<le> ts" "timestamp_ns e \<le> ts"
      using preceding.join_sound [OF d(1)] e by (simp_all add: before_def prior_event_def)
    ultimately have "timestamp_ns e \<le> timestamp_ns d"
      unfolding age_def word_le_nat_alt by linarith
    also have "\<dots> \<le> timestamp_ns c" using best d(1) cs(1) by auto
    finally show ?thesis .
  qed
  moreover have "prior_event ty t ts c"
    using c by (auto simp: prior_event_def before_def MATCH_WINDOW_NS_def dest!: preceding.join_sound)
  ultimately show ?thesis by blast
qed

lemma prior_Unknown_none:
  "classify_prior_cause t ts ty = Unknown \<Longrightarrow> \<not> prior_event ty t ts e"
  by (auto simp: classify_prior_Unknown preceding.join_None_iff before_def MATCH_WINDOW_NS_def
      prior_event_def)

section \<open>Properties\<close>

definition ex_event :: "u64 \<Rightarrow> u64 \<Rightarrow> u64 \<Rightarrow> u32 \<Rightarrow> u8 \<Rightarrow> trace_event" where
  "ex_event ts d k t ty = \<lparr>timestamp_ns = ts, duration_ns = d, key = k, pid = 1, tid = t,
     event_type = ty, comm = ''x''\<rparr>"

lemma ex_event_sel [simp]:
  "timestamp_ns (ex_event ts d k t ty) = ts" "duration_ns (ex_event ts d k t ty) = d"
  "key (ex_event ts d k t ty) = k" "tid (ex_event ts d k t ty) = t"
  "event_type (ex_event ts d k t ty) = ty"
  by (simp_all add: ex_event_def)

text \<open>C15: The backward join returns an event exactly when it matches, completed at or before
  the anchor and at most 5 ms earlier, no matching event in that window completed later,
  and none after it in the trace completed at the same time; so the answer is unique and
  stale events are never matched.\<close>

theorem nearest_preceding_characterised:
  "nearest_preceding cs a P = Some e \<longleftrightarrow>
     (\<exists>us vs. cs = us @ e # vs \<and> P e \<and> timestamp_ns e \<le> a \<and> unat a - unat (timestamp_ns e) \<le> 5000000
        \<and> (\<forall>u\<in>set us. P u \<and> timestamp_ns u \<le> a \<longrightarrow> timestamp_ns u \<le> timestamp_ns e)
        \<and> (\<forall>v\<in>set vs. P v \<and> timestamp_ns v \<le> a \<longrightarrow> timestamp_ns v < timestamp_ns e))"
proof -
  let ?Q = "\<lambda>x. P x \<and> timestamp_ns x \<le> a \<and> a - timestamp_ns x \<le> MATCH_WINDOW_NS"
  have Q: "?Q x \<longleftrightarrow> P x \<and> timestamp_ns x \<le> a \<and> unat a - unat (timestamp_ns x) \<le> 5000000" for x
    using age_window [of "timestamp_ns x" a MATCH_WINDOW_NS] by (auto simp: age_def MATCH_WINDOW_NS_def)
  have outside: "timestamp_ns x < timestamp_ns e" if "?Q e" "P x" "timestamp_ns x \<le> a" "\<not> ?Q x" for x
    using that unfolding Q unfolding word_less_nat_alt word_le_nat_alt by linarith
  have "max_by_key timestamp_ns (filter ?Q cs) = Some e \<longleftrightarrow>
     (\<exists>us vs. cs = us @ e # vs \<and> ?Q e
        \<and> (\<forall>u\<in>set us. P u \<and> timestamp_ns u \<le> a \<longrightarrow> timestamp_ns u \<le> timestamp_ns e)
        \<and> (\<forall>v\<in>set vs. P v \<and> timestamp_ns v \<le> a \<longrightarrow> timestamp_ns v < timestamp_ns e))"
    by (rule max_by_key_window_iff) (use outside in blast)+
  then show ?thesis unfolding nearest_preceding_def by (simp only: Q conj_assoc)
qed

theorem nearest_preceding_characterised_witness:
  "nearest_preceding [ex_event 100 0 7 1 2, ex_event 300 0 7 1 2, ex_event 300 1 7 1 2, ex_event 900 0 7 1 2]
     400 (\<lambda>e. key e = 7) = Some (ex_event 300 1 7 1 2)"
  by (rule nearest_preceding_characterised [THEN iffD2],
      rule exI [of _ "[ex_event 100 0 7 1 2, ex_event 300 0 7 1 2]"],
      rule exI [of _ "[ex_event 900 0 7 1 2]"]) simp

text \<open>C16: The forward join is the mirror image: the earliest matching event at or after the
  anchor and at most 5 ms later, the first one in the trace where several tie.\<close>

theorem nearest_following_characterised:
  "nearest_following cs a P = Some e \<longleftrightarrow>
     (\<exists>us vs. cs = us @ e # vs \<and> P e \<and> a \<le> timestamp_ns e \<and> unat (timestamp_ns e) - unat a \<le> 5000000
        \<and> (\<forall>u\<in>set us. P u \<and> a \<le> timestamp_ns u \<longrightarrow> timestamp_ns e < timestamp_ns u)
        \<and> (\<forall>v\<in>set vs. P v \<and> a \<le> timestamp_ns v \<longrightarrow> timestamp_ns e \<le> timestamp_ns v))"
proof -
  let ?Q = "\<lambda>x. P x \<and> a \<le> timestamp_ns x \<and> timestamp_ns x - a \<le> MATCH_WINDOW_NS"
  have Q: "?Q x \<longleftrightarrow> P x \<and> a \<le> timestamp_ns x \<and> unat (timestamp_ns x) - unat a \<le> 5000000" for x
    using lag_window [of a "timestamp_ns x" MATCH_WINDOW_NS] by (auto simp: lag_def MATCH_WINDOW_NS_def)
  have outside: "timestamp_ns e < timestamp_ns x" if "?Q e" "P x" "a \<le> timestamp_ns x" "\<not> ?Q x" for x
    using that unfolding Q unfolding word_less_nat_alt word_le_nat_alt by linarith
  have "min_by_key timestamp_ns (filter ?Q cs) = Some e \<longleftrightarrow>
     (\<exists>us vs. cs = us @ e # vs \<and> ?Q e
        \<and> (\<forall>u\<in>set us. P u \<and> a \<le> timestamp_ns u \<longrightarrow> timestamp_ns e < timestamp_ns u)
        \<and> (\<forall>v\<in>set vs. P v \<and> a \<le> timestamp_ns v \<longrightarrow> timestamp_ns e \<le> timestamp_ns v))"
    by (rule min_by_key_window_iff) (use outside in blast)+
  then show ?thesis unfolding nearest_following_def by (simp only: Q conj_assoc)
qed

theorem nearest_following_characterised_witness:
  "nearest_following [ex_event 100 0 7 1 2, ex_event 300 0 7 1 2, ex_event 300 1 7 1 2, ex_event 900 0 7 1 2]
     200 (\<lambda>e. key e = 7) = Some (ex_event 300 0 7 1 2)"
  by (rule nearest_following_characterised [THEN iffD2],
      rule exI [of _ "[ex_event 100 0 7 1 2]"],
      rule exI [of _ "[ex_event 300 1 7 1 2, ex_event 900 0 7 1 2]"]) simp

text \<open>The partition sorts every event of a known type into the list of its type, keeps the
  order within each list, and loses and duplicates nothing; events of unknown type are
  dropped.\<close>

lemma partition_by_type:
  "t_block (typed_partition evs) = filter (\<lambda>e. event_type e = 0) evs
   \<and> t_futex_wait (typed_partition evs) = filter (\<lambda>e. event_type e = 1) evs
   \<and> t_futex_wake (typed_partition evs) = filter (\<lambda>e. event_type e = 2) evs
   \<and> t_block_io (typed_partition evs) = filter (\<lambda>e. event_type e = 3) evs
   \<and> mset (t_block (typed_partition evs)) + mset (t_futex_wait (typed_partition evs))
     + mset (t_futex_wake (typed_partition evs)) + mset (t_block_io (typed_partition evs))
     = mset (filter (\<lambda>e. event_type e \<in> {0, 1, 2, 3}) evs)"
proof -
  have "mset (filter (\<lambda>e. event_type e = 0) xs) + mset (filter (\<lambda>e. event_type e = 1) xs)
    + mset (filter (\<lambda>e. event_type e = 2) xs) + mset (filter (\<lambda>e. event_type e = 3) xs)
    = mset (filter (\<lambda>e. event_type e \<in> {0, 1, 2, 3}) xs)" for xs :: "trace_event list"
    by (induction xs) auto
  then show ?thesis by (simp only: typed_partition_filter event_types simp_thms)
qed

text \<open>C17: What a resume is attributed to is the closest candidate in time: a futex wait of the
  thread that returned at or after the resume, or a block I/O of the thread that completed
  at or before it, each within 5 ms, the futex wait when both are equally close; and
  nothing only when neither exists.\<close>

theorem resume_cause_is_closest:
  "case classify_resume_cause t ts ty of
     Futex f \<Rightarrow> f \<in> set (t_futex_wait ty) \<and> tid f = t \<and> ts \<le> timestamp_ns f
       \<and> lag ts (timestamp_ns f) \<le> 5000000
       \<and> (\<forall>g\<in>set (t_futex_wait ty). tid g = t \<longrightarrow> ts \<le> timestamp_ns g \<longrightarrow>
            lag ts (timestamp_ns f) \<le> lag ts (timestamp_ns g))
       \<and> (\<forall>i\<in>set (t_block_io ty). tid i = t \<longrightarrow> timestamp_ns i \<le> ts \<longrightarrow>
            lag ts (timestamp_ns f) \<le> age ts (timestamp_ns i))
   | BlockIo i \<Rightarrow> i \<in> set (t_block_io ty) \<and> tid i = t \<and> timestamp_ns i \<le> ts
       \<and> age ts (timestamp_ns i) \<le> 5000000
       \<and> (\<forall>j\<in>set (t_block_io ty). tid j = t \<longrightarrow> timestamp_ns j \<le> ts \<longrightarrow>
            age ts (timestamp_ns i) \<le> age ts (timestamp_ns j))
       \<and> (\<forall>f\<in>set (t_futex_wait ty). tid f = t \<longrightarrow> ts \<le> timestamp_ns f \<longrightarrow>
            age ts (timestamp_ns i) < lag ts (timestamp_ns f))
   | Unknown \<Rightarrow>
       (\<forall>f\<in>set (t_futex_wait ty). tid f = t \<longrightarrow> ts \<le> timestamp_ns f \<longrightarrow> 5000000 < lag ts (timestamp_ns f))
       \<and> (\<forall>i\<in>set (t_block_io ty). tid i = t \<longrightarrow> timestamp_ns i \<le> ts \<longrightarrow> 5000000 < age ts (timestamp_ns i))"
proof (cases "classify_resume_cause t ts ty")
  case (Futex f)
  show ?thesis unfolding Futex cause.case by (rule resume_Futex_closest [OF Futex])
next
  case (BlockIo i)
  show ?thesis unfolding BlockIo cause.case by (rule resume_BlockIo_closest [OF BlockIo])
next
  case Unknown
  show ?thesis unfolding Unknown cause.case by (rule resume_Unknown_none [OF Unknown])
qed

definition ex_typed :: typed where
  "ex_typed = typed_partition
     [ex_event 1000 400 0 8 0, ex_event 1010 500 0x7f00 8 1, ex_event 1005 3 0x7f00 9 2,
      ex_event 990 380 0x80000100015895 9 3, ex_event 700 80 0x80000100000005 8 3]"

lemma ex_typed_lists:
  "t_futex_wait ex_typed = [ex_event 1010 500 0x7f00 8 1]"
  "t_futex_wake ex_typed = [ex_event 1005 3 0x7f00 9 2]"
  "t_block_io ex_typed = [ex_event 990 380 0x80000100015895 9 3, ex_event 700 80 0x80000100000005 8 3]"
  "t_block ex_typed = [ex_event 1000 400 0 8 0]"
  by (simp_all add: ex_typed_def typed_partition_filter event_types)

lemma ex_resume: "classify_resume_cause 8 1000 ex_typed = Futex (ex_event 1010 500 0x7f00 8 1)"
  by (simp add: classify_resume_cause_def nearest_following_def nearest_preceding_def ex_typed_lists
      MATCH_WINDOW_NS_def saturating_sub_def)

theorem resume_cause_is_closest_witness:
  "lag 1000 (timestamp_ns (ex_event 1010 500 0x7f00 8 1))
     \<le> age 1000 (timestamp_ns (ex_event 700 80 0x80000100000005 8 3))"
  using resume_cause_is_closest [where t = 8 and ts = 1000 and ty = ex_typed] by (simp add: ex_resume ex_typed_lists)

text \<open>C18: What a waker did before a point in time is the latest of its futex waits and block
  I/Os that completed at or before that point and at most 5 ms earlier, a futex wait where a
  block I/O completed at the same time; nothing is reported only when there is none.\<close>

theorem prior_cause_is_latest:
  "case classify_prior_cause t ts ty of
     Unknown \<Rightarrow> \<forall>e. \<not> prior_event ty t ts e
   | Futex c \<Rightarrow> prior_event ty t ts c \<and> c \<in> set (t_futex_wait ty)
       \<and> (\<forall>e. prior_event ty t ts e \<longrightarrow> timestamp_ns e \<le> timestamp_ns c)
   | BlockIo c \<Rightarrow> prior_event ty t ts c \<and> c \<in> set (t_block_io ty)
       \<and> (\<forall>e. prior_event ty t ts e \<longrightarrow> timestamp_ns e \<le> timestamp_ns c)
       \<and> (\<forall>f\<in>set (t_futex_wait ty). prior_event ty t ts f \<longrightarrow> timestamp_ns f < timestamp_ns c)"
proof (cases "classify_prior_cause t ts ty")
  case (Futex c)
  then have "c \<in> set (t_futex_wait ty)" unfolding classify_prior_Futex by (blast dest: preceding.join_sound)
  with prior_latest [of t ts ty c] Futex show ?thesis by simp
next
  case (BlockIo c)
  then have c: "c \<in> set (t_block_io ty)" unfolding classify_prior_BlockIo by (blast dest: preceding.join_sound)
  have "timestamp_ns f < timestamp_ns c" if f: "f \<in> set (t_futex_wait ty)" "prior_event ty t ts f" for f
  proof -
    obtain d where d: "nearest_preceding (t_futex_wait ty) ts (\<lambda>e. tid e = t) = Some d"
      "age ts (timestamp_ns d) \<le> age ts (timestamp_ns f)"
      using preceding.join_Some_ex [of f "t_futex_wait ty" "\<lambda>e. tid e = t" ts] f
      by (auto simp: prior_event_def before_def MATCH_WINDOW_NS_def)
    moreover have "timestamp_ns d \<le> ts" "timestamp_ns f \<le> ts"
      using preceding.join_sound [OF d(1)] f by (simp_all add: before_def prior_event_def)
    ultimately have "timestamp_ns f \<le> timestamp_ns d" unfolding age_def word_le_nat_alt by linarith
    also have "\<dots> < timestamp_ns c" using BlockIo d(1) by (simp add: classify_prior_BlockIo)
    finally show ?thesis .
  qed
  with c prior_latest [of t ts ty c] BlockIo show ?thesis by simp
qed (use prior_Unknown_none [of t ts ty] in simp)

lemma ex_prior: "classify_prior_cause 9 1002 ex_typed = BlockIo (ex_event 990 380 0x80000100015895 9 3)"
  by (simp add: classify_prior_cause_def nearest_preceding_def ex_typed_lists MATCH_WINDOW_NS_def)

theorem prior_cause_is_latest_witness:
  "prior_event ex_typed 9 1002 (ex_event 990 380 0x80000100015895 9 3)"
  using prior_cause_is_latest [where t = 9 and ts = 1002 and ty = ex_typed] by (simp add: ex_prior)

end
