(* ===== verification/Ui.thy ===== *)
theory Ui
  imports Rust_Text
begin

text \<open>
  Terminal cosmetics (\<open>whyslow-cli/src/ui.rs\<close>): the decision to colour output, taken once,
  the ANSI painters and the lines of the banner. The lemmas say that painting only adds escape
  sequences: stripping them gives the plain text back.
\<close>

section \<open>The colour decision\<close>

text \<open>
  \<open>OnceLock::get_or_init\<close>: the first call decides from \<open>NO_COLOR\<close> and the terminal check
  and stores the answer, later calls return it.
\<close>

definition color_enabled :: "bool \<Rightarrow> bool \<Rightarrow> bool option \<Rightarrow> bool \<times> bool option" where
  "color_enabled no_color_set is_terminal ENABLED =
     (case ENABLED of
        Some b \<Rightarrow> (b, Some b)
      | None \<Rightarrow> let b = (\<not> no_color_set \<and> is_terminal) in (b, Some b))"

section \<open>Painters\<close>

definition ESC :: char where "ESC = CHR 0x1B"

definition paint :: "bool \<Rightarrow> string \<Rightarrow> string \<Rightarrow> string" where
  "paint enabled code s =
     (if enabled then ESC # ''['' @ code @ ''m'' @ s @ ESC # ''[0m'' else s)"

definition bold :: "bool \<Rightarrow> string \<Rightarrow> string" where "bold en s = paint en ''1'' s"
definition dim :: "bool \<Rightarrow> string \<Rightarrow> string" where "dim en s = paint en ''2'' s"
definition bold_yellow :: "bool \<Rightarrow> string \<Rightarrow> string" where "bold_yellow en s = paint en ''1;93'' s"
definition bold_red :: "bool \<Rightarrow> string \<Rightarrow> string" where "bold_red en s = paint en ''1;91'' s"
definition magenta :: "bool \<Rightarrow> string \<Rightarrow> string" where "magenta en s = paint en ''1;95'' s"
definition cyan :: "bool \<Rightarrow> string \<Rightarrow> string" where "cyan en s = paint en ''1;96'' s"
definition green :: "bool \<Rightarrow> string \<Rightarrow> string" where "green en s = paint en ''1;92'' s"
definition bold_cyan :: "bool \<Rightarrow> string \<Rightarrow> string" where "bold_cyan en s = paint en ''1;96'' s"
definition blue :: "bool \<Rightarrow> string \<Rightarrow> string" where "blue en s = paint en ''1;94'' s"

lemmas painters = bold_def dim_def bold_yellow_def bold_red_def magenta_def cyan_def green_def
  bold_cyan_def blue_def

section \<open>The banner\<close>

definition BANNER_COLORS :: "string list" where
  "BANNER_COLORS = [''1;91'', ''1;93'', ''1;92'', ''1;96'', ''1;94'', ''1;95'']"

definition BANNER_LINES :: "string list" where
  "BANNER_LINES =
     [''           __               __'',
      '' _      __/ /_  __  _______/ /___ _      __'',
      ''| | /| / / __ '' @ [CHR 0x5C] @ ''/ / / / ___/ / __ '' @ [CHR 0x5C] @ '' | /| / /'',
      ''| |/ |/ / / / / /_/ (__  ) / /_/ / |/ |/ /'',
      ''|__/|__/_/ /_/'' @ [CHR 0x5C] @ ''__, /____/_/'' @ [CHR 0x5C] @ ''____/|__/|__/'',
      ''             /____/                        '']"

text \<open>The first \<open>n\<close> elements of \<open>iter().cycle()\<close>.\<close>

definition cycle_take :: "nat \<Rightarrow> 'a list \<Rightarrow> 'a list" where
  "cycle_take n xs = map (\<lambda>i. xs ! (i mod length xs)) [0..<n]"

definition em_dash :: string where "em_dash = [CHR 0xE2, CHR 0x80, CHR 0x94]"

text \<open>The lines printed after the empty first one, in order.\<close>

definition banner_body :: "bool \<Rightarrow> string list" where
  "banner_body en =
     map (\<lambda>(line, code). paint en code line)
       (zip BANNER_LINES (cycle_take (length BANNER_LINES) BANNER_COLORS)) @
     [''  '' @ bold en (''debug why a Linux process was slow '' @ em_dash @
        '' eBPF causal-chain tracing''), []]"

section \<open>Stripping escape sequences\<close>

function strip_ansi :: "string \<Rightarrow> string" where
  "strip_ansi [] = []"
| "strip_ansi (c # cs) =
     (if c = ESC then strip_ansi (drop (Suc (length (takeWhile (\<lambda>x. x \<noteq> CHR ''m'') cs))) cs)
      else c # strip_ansi cs)"
  by pat_completeness auto
termination
  by (relation "measure length") auto

definition plain :: "string \<Rightarrow> bool" where
  "plain s \<longleftrightarrow> ESC \<notin> set s"

lemma strip_ansi_plain: "plain s \<Longrightarrow> strip_ansi (s @ t) = s @ strip_ansi t"
  by (induction s) (auto simp: plain_def)

lemma strip_ansi_seq:
  assumes "CHR ''m'' \<notin> set code"
  shows "strip_ansi (ESC # CHR ''['' # code @ CHR ''m'' # t) = strip_ansi t"
proof -
  have "takeWhile (\<lambda>x. x \<noteq> CHR ''m'') (CHR ''['' # code @ CHR ''m'' # t) = CHR ''['' # code"
    using assms by (simp, subst takeWhile_append2) auto
  then show ?thesis by simp
qed

lemma strip_ansi_paint:
  assumes "CHR ''m'' \<notin> set code" and "plain s"
  shows "strip_ansi (paint en code s @ t) = s @ strip_ansi t"
proof (cases en)
  case True
  have "strip_ansi (paint en code s @ t) = strip_ansi (s @ ESC # CHR ''['' # ''0'' @ CHR ''m'' # t)"
    using True assms(1) strip_ansi_seq [of code "s @ ESC # CHR ''['' # ''0'' @ CHR ''m'' # t"]
    by (simp add: paint_def del: strip_ansi.simps)
  also have "\<dots> = s @ strip_ansi t"
    using assms(2) strip_ansi_seq [of "''0''" t] by (simp add: strip_ansi_plain del: strip_ansi.simps)
  finally show ?thesis .
next
  case False
  then show ?thesis using assms(2) by (simp add: paint_def strip_ansi_plain)
qed

lemma strip_painters:
  assumes "plain s"
  shows "strip_ansi (bold en s @ t) = s @ strip_ansi t" "strip_ansi (dim en s @ t) = s @ strip_ansi t"
    "strip_ansi (bold_yellow en s @ t) = s @ strip_ansi t"
    "strip_ansi (bold_red en s @ t) = s @ strip_ansi t"
    "strip_ansi (magenta en s @ t) = s @ strip_ansi t" "strip_ansi (cyan en s @ t) = s @ strip_ansi t"
    "strip_ansi (green en s @ t) = s @ strip_ansi t" "strip_ansi (bold_cyan en s @ t) = s @ strip_ansi t"
    "strip_ansi (blue en s @ t) = s @ strip_ansi t"
  using assms by (simp_all add: painters strip_ansi_paint)

lemma strip_painters_end:
  assumes "plain s"
  shows "strip_ansi (bold en s) = s" "strip_ansi (dim en s) = s" "strip_ansi (bold_yellow en s) = s"
    "strip_ansi (bold_red en s) = s" "strip_ansi (magenta en s) = s" "strip_ansi (cyan en s) = s"
    "strip_ansi (green en s) = s" "strip_ansi (bold_cyan en s) = s" "strip_ansi (blue en s) = s"
  using assms strip_painters [of s en "[]"] by simp_all

lemma paint_off [simp]: "paint False code s = s"
  by (simp add: paint_def)

lemma plain_append [simp]: "plain (s @ t) \<longleftrightarrow> plain s \<and> plain t"
  by (auto simp: plain_def)

lemma plain_Cons [simp]: "plain (c # s) \<longleftrightarrow> c \<noteq> ESC \<and> plain s"
  by (auto simp: plain_def)

lemma plain_Nil [simp]: "plain []"
  by (simp add: plain_def)

lemma plain_show_base: "2 \<le> b \<Longrightarrow> b \<le> 16 \<Longrightarrow> plain (show_base b n)"
proof -
  assume b: "2 \<le> b" "b \<le> 16"
  have "digit_char d \<noteq> ESC" if "d < 16" for d
  proof
    assume "digit_char d = ESC"
    then have "(of_char (digit_char d) :: nat) = of_char ESC" by simp
    with that show False by (simp add: digit_char_def ESC_def split: if_splits)
  qed
  then show ?thesis
    unfolding plain_def using set_show_base [of ESC b n] b by (metis less_le_trans)
qed

lemma plain_dec [simp]: "plain (dec n)" and plain_hex_alt [simp]: "plain (hex_alt n)"
  by (simp_all add: dec_def hex_alt_def plain_show_base ESC_def)

lemma plain_pad_zero [simp]: "plain (pad_zero w s) \<longleftrightarrow> plain s"
  by (auto simp: pad_zero_def plain_def ESC_def)

lemma plain_fmt_int_pad [simp]: "plain (fmt_int_pad w i)"
  by (simp add: fmt_int_pad_def ESC_def)

end
