(* ===== verification/Float64.thy ===== *)
theory Float64
  imports Rust_Text
begin

text \<open>
  The little floating-point arithmetic of the program: a \<open>u64\<close> cast to \<open>f64\<close>, divided by
  a constant and printed with \<open>{:.2}\<close>. Values are IEEE binary64 with round-to-nearest-even
  at each of the three steps (cast, division, decimal output, which Rust rounds half to
  even as well). A positive value is a pair \<open>(m, j)\<close> standing for \<open>m / 2^j\<close>.
\<close>

text \<open>\<open>a / b\<close> rounded to the nearest integer, ties to even.\<close>

definition round_half_even :: "nat \<Rightarrow> nat \<Rightarrow> nat" where
  "round_half_even a b =
     (let q = a div b; r = a mod b in
      if 2 * r < b then q else if b < 2 * r then q + 1 else if even q then q else q + 1)"

fun bit_length :: "nat \<Rightarrow> nat" where
  "bit_length n = (if n = 0 then 0 else Suc (bit_length (n div 2)))"

declare bit_length.simps [simp del]

text \<open>The cast: an integer with more than 53 significant bits is rounded to 53.\<close>

definition f64_of_u64 :: "nat \<Rightarrow> nat" where
  "f64_of_u64 n = (let k = bit_length n - 53 in round_half_even n (2 ^ k) * 2 ^ k)"

text \<open>The quotient of an integral value by an integer not above it, to 53 significant bits.\<close>

definition f64_div :: "nat \<Rightarrow> nat \<Rightarrow> nat \<times> nat" where
  "f64_div v d = (let j = 53 - bit_length (v div d) in (round_half_even (v * 2 ^ j) d, j))"

text \<open>Decimal output with two digits, as hundredths.\<close>

definition f64_hundredths :: "nat \<times> nat \<Rightarrow> nat" where
  "f64_hundredths x = (case x of (m, j) \<Rightarrow> round_half_even (m * 100) (2 ^ j))"

definition fmt_fixed2 :: "nat \<times> nat \<Rightarrow> string" where
  "fmt_fixed2 x =
     (let h = f64_hundredths x in dec (h div 100) @ ''.'' @ pad_zero 2 (dec (h mod 100)))"

lemma round_half_even_error:
  assumes "0 < b"
  shows "2 * \<bar>int (round_half_even a b) * int b - int a\<bar> \<le> int b"
proof -
  have a: "int a = int (a div b) * int b + int (a mod b)"
    by (metis mult.commute of_nat_add of_nat_mult mult_div_mod_eq)
  have r: "int (a mod b) < int b" using assms by simp
  show ?thesis
    using r unfolding a
    by (auto simp: round_half_even_def Let_def algebra_simps)
qed

lemma bit_length_bounds: "0 < n \<Longrightarrow> 2 ^ (bit_length n - 1) \<le> n \<and> n < 2 ^ bit_length n"
proof (induction n rule: bit_length.induct)
  case (1 n)
  show ?case
  proof (cases "n div 2 = 0")
    case True
    with 1 have "n = 1" by simp
    then show ?thesis by (simp add: bit_length.simps)
  next
    case False
    then have IH: "2 ^ (bit_length (n div 2) - 1) \<le> n div 2" "n div 2 < 2 ^ bit_length (n div 2)"
      using 1 by auto
    obtain k where k: "bit_length (n div 2) = Suc k"
      using False by (simp add: bit_length.simps [of "n div 2"])
    have "bit_length n = Suc (Suc k)" using 1(2) k by (simp add: bit_length.simps [of n])
    moreover have "2 * (n div 2) \<le> n" "n < 2 * (n div 2) + 2" by linarith+
    ultimately show ?thesis using IH k by simp
  qed
qed

lemma bit_length_le: "n < 2 ^ k \<Longrightarrow> bit_length n \<le> k"
proof (rule ccontr)
  assume n: "n < 2 ^ k" "\<not> bit_length n \<le> k"
  then have "0 < n" by (cases n) (auto simp: bit_length.simps)
  then have "2 ^ (bit_length n - 1) \<le> n" using bit_length_bounds by blast
  moreover have "(2::nat) ^ k \<le> 2 ^ (bit_length n - 1)" using n(2) by (intro power_increasing) auto
  ultimately show False using n(1) by linarith
qed

lemma f64_of_u64_error:
  assumes "n < 2 ^ 64"
  shows "\<bar>int (f64_of_u64 n) - int n\<bar> \<le> 1024"
proof -
  define k where "k = bit_length n - 53"
  have "k \<le> 11" using bit_length_le [OF assms] by (simp add: k_def)
  then have "(2::int) ^ k \<le> 2 ^ 11" by (intro power_increasing) auto
  then have "int (2 ^ k) \<le> 2048" by simp
  moreover have "2 * \<bar>int (f64_of_u64 n) - int n\<bar> \<le> int (2 ^ k)"
    using round_half_even_error [of "2 ^ k" n] by (simp add: f64_of_u64_def Let_def k_def)
  ultimately have "2 * \<bar>int (f64_of_u64 n) - int n\<bar> \<le> 2048" by (rule order_trans [rotated])
  then show ?thesis by simp
qed

lemma f64_of_u64_exact: "n < 2 ^ 53 \<Longrightarrow> f64_of_u64 n = n"
  using bit_length_le [of n 53] by (simp add: f64_of_u64_def round_half_even_def)

text \<open>
  Seconds with two decimals: the printed hundredths, as nanoseconds, are within 5.003 ms of
  the value, half a hundredth plus the rounding of the cast and the division.
\<close>

lemma hundredths_error:
  assumes "1000000000 \<le> n" and "n < 2 ^ 64"
  shows "\<bar>int (f64_hundredths (f64_div (f64_of_u64 n) 1000000000)) * 10000000 - int n\<bar> \<le> 5003000"
proof -
  define v where "v = f64_of_u64 n"
  define j where "j = 53 - bit_length (v div 1000000000)"
  define m where "m = round_half_even (v * 2 ^ j) 1000000000"
  define h where "h = round_half_even (m * 100) (2 ^ j)"
  have v: "\<bar>int v - int n\<bar> \<le> 1024" using f64_of_u64_error [OF assms(2)] by (simp add: v_def)
  then have "v < 2 ^ 35 * 1000000000" using assms(2) by simp
  then have "v div 1000000000 < 2 ^ 35" by (rule less_mult_imp_div_less)
  then have "18 \<le> j" using bit_length_le [of "v div 1000000000" 35] by (simp add: j_def)
  then have "(2::int) ^ 18 \<le> 2 ^ j" by (intro power_increasing) auto
  then have j: "262144 \<le> int (2 ^ j)" by simp
  define p where "p = int (2 ^ j)"
  have combine: "\<bar>10000000 * a - c\<bar> \<le> 5000000 * q + 500000000"
    if "2 * \<bar>a - b * 100\<bar> \<le> q" and "2 * \<bar>b * 1000000000 - c\<bar> \<le> 1000000000" for a b c q :: int
    using that abs_ge_self [of "a - b * 100"] abs_ge_minus_self [of "a - b * 100"]
      abs_ge_self [of "b * 1000000000 - c"] abs_ge_minus_self [of "b * 1000000000 - c"]
    by (intro abs_leI; linarith)
  have h: "2 * \<bar>int h * p - int m * 100\<bar> \<le> p"
    using round_half_even_error [of "2 ^ j" "m * 100"] by (simp add: h_def p_def)
  have m: "2 * \<bar>int m * 1000000000 - int v * p\<bar> \<le> 1000000000"
    using round_half_even_error [of 1000000000 "v * 2 ^ j"] by (simp add: m_def p_def)
  have "\<bar>10000000 * (int h * p) - int v * p\<bar> \<le> 5000000 * p + 500000000"
    by (rule combine [OF h m])
  also have "\<dots> \<le> 5001908 * p" using j by (simp add: p_def)
  also have "10000000 * (int h * p) - int v * p = (int h * 10000000 - int v) * p"
    by (simp add: algebra_simps)
  finally have "\<bar>int h * 10000000 - int v\<bar> * p \<le> 5001908 * p"
    using j by (simp only: abs_mult) (simp add: p_def)
  then have "\<bar>int h * 10000000 - int v\<bar> \<le> 5001908"
    using j by (simp only: mult_le_cancel_right) (simp add: p_def)
  moreover have "f64_hundredths (f64_div (f64_of_u64 n) 1000000000) = h"
    by (simp add: f64_hundredths_def f64_div_def Let_def h_def m_def j_def v_def)
  ultimately show ?thesis
    using v abs_triangle_ineq [of "int h * 10000000 - int v" "int v - int n"] by simp
qed

end
