(* ===== verification/Host.thy ===== *)
theory Host
  imports Rust_Text
begin

text \<open>
  What the explanation of a trace reads from the machine besides the trace: the sysfs links
  of block devices, the local time conversion (which leaves the zeroed struct alone when it
  fails) and the colour decision. The answers are the record \<open>host\<close>, fixed while one trace is
  explained; each question is an \<open>ask\<close>, and the functions collect the asks they make beside
  their result, oldest last, so that the command line can account for them as calls.
\<close>

record tm =
  tm_hour :: i32
  tm_min :: i32
  tm_sec :: i32

record host =
  h_read_link :: "string \<Rightarrow> u8 list option"
  h_localtime :: "i64 \<Rightarrow> tm option"
  h_color :: bool

text \<open>
  \<open>read_link\<close> of a path, \<open>localtime_r\<close> of a time, and \<open>color_enabled\<close>, which looks at the
  environment and the terminal only the first time a process asks.
\<close>

datatype ask = Ask_link string | Ask_localtime i64 | Ask_color

end
