(* ===== verification/Explain.thy ===== *)
theory Explain
  imports Causal Ui Float64 Host
begin

text \<open>
  The chain walker (second half of \<open>whyslow-cli/src/causal.rs\<close>): device names with their
  cache, the formatting of times and durations, \<open>explain_one_stall\<close>,
  \<open>walk_from_futex_wait\<close>, \<open>explain\<close> and \<open>print_chains\<close>. The functions that read from the
  machine record what they ask it for in the state they thread, the device names.
\<close>

section \<open>Device names\<close>

text \<open>\<open>DevNames\<close>, with the asks made so far.\<close>

record dev_names =
  cache :: "u32 \<rightharpoonup> string"
  asked :: "ask list"

definition dev_names_new :: dev_names where
  "dev_names_new = \<lparr>cache = Map.empty, asked = []\<rparr>"

definition asking :: "ask \<Rightarrow> dev_names \<Rightarrow> dev_names" where
  "asking q dn = dn\<lparr>asked := q # asked dn\<rparr>"

lemma asking_sel [simp]: "cache (asking q dn) = cache dn" "asked (asking q dn) = q # asked dn"
  by (simp_all add: asking_def)

text \<open>\<open>Path::file_name\<close>: the last component, unless it is the parent directory.\<close>

fun split_on :: "'a \<Rightarrow> 'a list \<Rightarrow> 'a list list" where
  "split_on c [] = [[]]"
| "split_on c (x # xs) =
     (if x = c then [] # split_on c xs
      else (case split_on c xs of [] \<Rightarrow> [[x]] | p # ps \<Rightarrow> (x # p) # ps))"

definition file_name :: "u8 list \<Rightarrow> u8 list option" where
  "file_name p =
     (let cs = filter (\<lambda>c. c \<noteq> [] \<and> c \<noteq> [0x2E]) (split_on 0x2F p)
      in if cs = [] \<or> last cs = [0x2E, 0x2E] then None else Some (last cs))"

definition dev_path :: "u32 \<Rightarrow> u32 \<Rightarrow> string" where
  "dev_path major minor = ''/sys/dev/block/'' @ dec (unat major) @ '':'' @ dec (unat minor)"

definition dev_name :: "host \<Rightarrow> dev_names \<Rightarrow> u32 \<Rightarrow> string \<times> dev_names" where
  "dev_name h dn dev =
     (case cache dn dev of
        Some n \<Rightarrow> (n, dn)
      | None \<Rightarrow>
          (let major = drop_bit 20 dev;
               minor = dev AND 0xFFFFF;
               path = dev_path major minor;
               dn = asking (Ask_link path) dn;
               name = (case Option.bind (h_read_link h path) file_name of
                         Some f \<Rightarrow> from_utf8_lossy f
                       | None \<Rightarrow> ''dev'' @ dec (unat major) @ '':'' @ dec (unat minor))
           in (name, dn\<lparr>cache := (cache dn)(dev \<mapsto> name)\<rparr>)))"

section \<open>Formatting\<close>

definition format_wall_time :: "host \<Rightarrow> dev_names \<Rightarrow> u64 \<Rightarrow> string \<times> dev_names" where
  "format_wall_time h dn unix_ns =
     (let secs = unix_ns div 1000000000;
          millis = (unix_ns mod 1000000000) div 1000000;
          tm = (case h_localtime h secs of
                  Some tm \<Rightarrow> tm | None \<Rightarrow> \<lparr>tm_hour = 0, tm_min = 0, tm_sec = 0\<rparr>)
      in (fmt_int_pad 2 (sint (tm_hour tm)) @ '':'' @ fmt_int_pad 2 (sint (tm_min tm)) @ '':'' @
            fmt_int_pad 2 (sint (tm_sec tm)) @ ''.'' @ pad_zero 3 (dec (unat millis)),
          asking (Ask_localtime secs) dn))"

definition micro_sign :: string where "micro_sign = [CHR 0xC2, CHR 0xB5]"

definition format_duration :: "u64 \<Rightarrow> string" where
  "format_duration ns =
     (if 1000000000 \<le> ns then fmt_fixed2 (f64_div (f64_of_u64 (unat ns)) 1000000000) @ ''s''
      else if 1000000 \<le> ns then dec (unat (ns div 1000000)) @ ''ms''
      else if 1000 \<le> ns then dec (unat (ns div 1000)) @ micro_sign @ ''s''
      else dec (unat ns) @ ''ns'')"

section \<open>The walk\<close>

definition left_arrow :: string where "left_arrow = [CHR 0xE2, CHR 0x86, CHR 0x90]"

definition show_tid :: "u32 \<Rightarrow> string" where "show_tid t = ''tid '' @ dec (unat t)"

definition show_futex :: "u64 \<Rightarrow> string" where "show_futex k = ''futex '' @ hex_alt (unat k)"

definition show_io :: "string \<Rightarrow> u32 \<Rightarrow> string" where
  "show_io name sector = ''block I/O (dev '' @ name @ '', sector '' @ dec (unat sector) @ '')''"

text \<open>\<open>" {} {} {}"\<close> for the waker, \<open>" {} {} blocked {} on {}"\<close> for what it waited on before.\<close>

definition woken_line :: "bool \<Rightarrow> u32 \<Rightarrow> string" where
  "woken_line en t =
     '' '' @ dim en left_arrow @ '' '' @ green en ''woken by'' @ '' '' @ bold_yellow en (show_tid t)"

definition blocked_line :: "bool \<Rightarrow> u32 \<Rightarrow> u64 \<Rightarrow> string \<Rightarrow> string" where
  "blocked_line en t d what =
     '' '' @ dim en left_arrow @ '' '' @ bold_yellow en (show_tid t) @ '' blocked '' @
     bold_red en (format_duration d) @ '' on '' @ what"

lemma depth_increments: "depth < MAX_CHAIN_DEPTH \<Longrightarrow> unat (depth + 1) = Suc (unat depth)"
  by (simp add: MAX_CHAIN_DEPTH_def word_less_nat_alt unat_word_ariths)

function walk_from_futex_wait ::
  "host \<Rightarrow> trace_event \<Rightarrow> typed \<Rightarrow> dev_names \<Rightarrow> u32 \<Rightarrow> string list \<Rightarrow> dev_names \<times> string list" where
  "walk_from_futex_wait h wait ty dn depth ls =
     (case nearest_preceding (t_futex_wake ty) (timestamp_ns wait) (\<lambda>e. key e = key wait) of
        None \<Rightarrow> (dn, ls)
      | Some wake \<Rightarrow>
          (let ls = ls @ [woken_line (h_color h) (tid wake)] in
           if depth \<ge> MAX_CHAIN_DEPTH then (dn, ls)
           else
             (let wake_start_ts = saturating_sub (timestamp_ns wake) (duration_ns wake) in
              case classify_prior_cause (tid wake) wake_start_ts ty of
                Futex next_wait \<Rightarrow>
                  walk_from_futex_wait h next_wait ty dn (depth + 1)
                    (ls @ [blocked_line (h_color h) (tid wake) (duration_ns next_wait)
                             (magenta (h_color h) (show_futex (key next_wait)))])
              | BlockIo io \<Rightarrow>
                  (let (dev, sector) = unpack_block_key (key io);
                       (name, dn) = dev_name h dn dev
                   in (dn, ls @ [blocked_line (h_color h) (tid wake) (duration_ns io)
                                   (cyan (h_color h) (show_io name sector))]))
              | Unknown \<Rightarrow> (dn, ls))))"
  by pat_completeness auto

termination
  by (relation "measure (\<lambda>(h, wait, ty, dn, depth, ls). 8 - unat depth)")
    (auto simp: depth_increments not_le, simp add: MAX_CHAIN_DEPTH_def word_less_nat_alt)

declare walk_from_futex_wait.simps [simp del]

section \<open>Stalls\<close>

definition stall_line :: "bool \<Rightarrow> string \<Rightarrow> trace_event \<Rightarrow> string \<Rightarrow> string" where
  "stall_line en wall block what =
     blue en wall @ '' '' @ dim en em_dash @ '' '' @ bold_yellow en (show_tid (tid block)) @
     '' blocked '' @ bold_red en (format_duration (duration_ns block)) @ '' '' @ what"

text \<open>Every line is painted; the first colour of a stall's lines is its headline's.\<close>

definition explain_one_stall ::
  "host \<Rightarrow> trace_event \<Rightarrow> trace_file \<Rightarrow> typed \<Rightarrow> dev_names \<Rightarrow> string list \<times> dev_names" where
  "explain_one_stall h block tf ty dn =
     (let start_ts = saturating_sub (timestamp_ns block) (duration_ns block);
          (wall, dn) = format_wall_time h dn (wall_ns_for tf start_ts);
          en = h_color h;
          dn = asking Ask_color dn
      in case classify_resume_cause (tid block) (timestamp_ns block) ty of
           Futex wait \<Rightarrow>
             (let ls = [stall_line en wall block (''on '' @ magenta en (show_futex (key wait)))];
                  (dn, ls) = walk_from_futex_wait h wait ty dn 1 ls
              in (ls, dn))
         | BlockIo io \<Rightarrow>
             (let (dev, sector) = unpack_block_key (key io);
                  (name, dn) = dev_name h dn dev
              in ([stall_line en wall block (''on '' @ cyan en (show_io name sector))], dn))
         | Unknown \<Rightarrow>
             ([stall_line en wall block (dim en ''(no correlated cause found)'')], dn))"

text \<open>The lazy \<open>map\<close> of \<open>explain\<close>, which carries the device names from stall to stall.\<close>

fun explain_stalls ::
  "host \<Rightarrow> trace_file \<Rightarrow> typed \<Rightarrow> dev_names \<Rightarrow> trace_event list \<Rightarrow> string list list \<times> dev_names" where
  "explain_stalls h tf ty dn [] = ([], dn)"
| "explain_stalls h tf ty dn (b # bs) =
     (let (c, dn) = explain_one_stall h b tf ty dn;
          (cs, dn) = explain_stalls h tf ty dn bs
      in (c # cs, dn))"

definition longer_first :: "trace_event \<Rightarrow> trace_event \<Rightarrow> bool" where
  "longer_first a b \<longleftrightarrow> duration_ns b \<le> duration_ns a"

definition explain_run :: "host \<Rightarrow> trace_file \<Rightarrow> u64 \<Rightarrow> string list list \<times> dev_names" where
  "explain_run h tf slowest =
     (let ty = typed_partition (events tf);
          blocks = take (unat slowest) (sort_by longer_first (t_block ty))
      in explain_stalls h tf ty dev_names_new blocks)"

text \<open>Its result, and what it asked the machine for, in order.\<close>

definition explain :: "host \<Rightarrow> trace_file \<Rightarrow> u64 \<Rightarrow> string list list" where
  "explain h tf slowest = fst (explain_run h tf slowest)"

definition explain_asks :: "host \<Rightarrow> trace_file \<Rightarrow> u64 \<Rightarrow> ask list" where
  "explain_asks h tf slowest = rev (asked (snd (explain_run h tf slowest)))"

definition rule_line :: "bool \<Rightarrow> string" where
  "rule_line en = dim en (concat (replicate 60 [CHR 0xE2, CHR 0x94, CHR 0x80]))"

text \<open>The lines printed, in order; a rule separates one chain from the next.\<close>

definition print_chains :: "bool \<Rightarrow> string list list \<Rightarrow> string list" where
  "print_chains en cs =
     (if cs = [] then
        [''whyslow: no blocked intervals recorded (process may not have stalled, or trace is empty)'']
      else
        [bold_cyan en ([CHR 0xE2, CHR 0x96, CHR 0xB6] @ '' '' @ dec (length cs) @ '' slowest stall(s):''), []] @
        concat (map (\<lambda>(i, c). (if i > 0 then [rule_line en] else []) @ c)
          (zip [0..<length cs] cs)))"

end
