(* ===== verification/Causal_Chains.thy ===== *)
theory Causal_Chains
  imports Explain
begin

text \<open>
  What a causal chain is, over events alone, and the refinement: the walker prints the
  rendering of such a chain. Device names come from a cache; its contract is the locale
  \<open>resolver\<close>, under which the cache cannot be seen in the output.
\<close>

section \<open>Chains\<close>

text \<open>One printed line: who woke the waiter, or what that thread had waited on before.\<close>

datatype hop = Woken (hop_event: trace_event) | Waited (hop_event: trace_event)
  | Did_io (hop_event: trace_event)

text \<open>The latest wake of the futex that \<open>w\<close> waited on, not after the wait ended.\<close>

definition woke :: "typed \<Rightarrow> trace_event \<Rightarrow> trace_event \<Rightarrow> bool" where
  "woke ty w k \<longleftrightarrow> k \<in> set (t_futex_wake ty) \<and> key k = key w \<and> timestamp_ns k \<le> timestamp_ns w
     \<and> age (timestamp_ns w) (timestamp_ns k) \<le> 5000000
     \<and> (\<forall>k'\<in>set (t_futex_wake ty). key k' = key w \<longrightarrow> timestamp_ns k' \<le> timestamp_ns w \<longrightarrow>
          timestamp_ns k' \<le> timestamp_ns k)"

text \<open>The last thing the waker finished before it began the wake call.\<close>

definition preceded_by :: "typed \<Rightarrow> trace_event \<Rightarrow> trace_event \<Rightarrow> bool" where
  "preceded_by ty k c \<longleftrightarrow>
     (let start = saturating_sub (timestamp_ns k) (duration_ns k) in
      prior_event ty (tid k) start c \<and>
      (\<forall>e. prior_event ty (tid k) start e \<longrightarrow> timestamp_ns e \<le> timestamp_ns c))"

inductive causal_chain :: "typed \<Rightarrow> nat \<Rightarrow> trace_event \<Rightarrow> hop list \<Rightarrow> bool" for ty where
  no_wake: "(\<And>k. \<not> woke ty w k) \<Longrightarrow> causal_chain ty n w []"
| depth_limit: "woke ty w k \<Longrightarrow> causal_chain ty 0 w [Woken k]"
| waker_ran: "woke ty w k \<Longrightarrow> (\<And>c. \<not> preceded_by ty k c) \<Longrightarrow> causal_chain ty (Suc n) w [Woken k]"
| waker_did_io: "woke ty w k \<Longrightarrow> preceded_by ty k io \<Longrightarrow> io \<in> set (t_block_io ty) \<Longrightarrow>
    causal_chain ty (Suc n) w [Woken k, Did_io io]"
| waker_waited: "woke ty w k \<Longrightarrow> preceded_by ty k f \<Longrightarrow> f \<in> set (t_futex_wait ty) \<Longrightarrow>
    causal_chain ty n f hs \<Longrightarrow> causal_chain ty (Suc n) w (Woken k # Waited f # hs)"

section \<open>Device names\<close>

text \<open>A stateful lookup that answers as a fixed function as long as its state is sound.\<close>

locale resolver =
  fixes resolve :: "'c \<Rightarrow> 'd \<Rightarrow> 'n \<times> 'c" and sound :: "'c \<Rightarrow> bool" and meaning :: "'d \<Rightarrow> 'n"
  assumes resolves: "sound c \<Longrightarrow> fst (resolve c d) = meaning d"
    and keeps_sound: "sound c \<Longrightarrow> sound (snd (resolve c d))"
begin

lemma resolveD: "sound c \<Longrightarrow> resolve c d = (n, c') \<Longrightarrow> n = meaning d \<and> sound c'"
  by (metis fst_conv keeps_sound resolves snd_conv)

lemma agree: "sound c \<Longrightarrow> sound c' \<Longrightarrow> fst (resolve c d) = fst (resolve c' d)"
  by (simp add: resolves)

end

definition dev_meaning :: "host \<Rightarrow> u32 \<Rightarrow> string" where
  "dev_meaning h d = fst (dev_name h dev_names_new d)"

definition cache_sound :: "host \<Rightarrow> dev_names \<Rightarrow> bool" where
  "cache_sound h c \<longleftrightarrow> (\<forall>d n. cache c d = Some n \<longrightarrow> n = dev_meaning h d)"

lemma dev_name_meaning:
  "dev_name h c d = (case cache c d of
     Some n \<Rightarrow> (n, c)
   | None \<Rightarrow> (dev_meaning h d, asking (Ask_link (dev_path (drop_bit 20 d) (d AND 0xFFFFF)))
       (c\<lparr>cache := (cache c)(d \<mapsto> dev_meaning h d)\<rparr>)))"
  by (simp add: dev_meaning_def dev_name_def dev_names_new_def asking_def Let_def split: option.split)

lemma cache_sound_asking [simp]: "cache_sound h (asking q c) \<longleftrightarrow> cache_sound h c"
  by (simp add: cache_sound_def)

interpretation dev: resolver "dev_name h" "cache_sound h" "dev_meaning h" for h
  by unfold_locales (auto simp: dev_name_meaning cache_sound_def split: option.splits)

lemma cache_sound_new [simp]: "cache_sound h dev_names_new"
  by (simp add: cache_sound_def dev_names_new_def)

section \<open>Rendering\<close>

definition show_io_key :: "host \<Rightarrow> u64 \<Rightarrow> string" where
  "show_io_key h k = (case unpack_block_key k of (d, sector) \<Rightarrow>
     cyan (h_color h) (show_io (dev_meaning h d) sector))"

fun render_hop :: "host \<Rightarrow> hop \<Rightarrow> string" where
  "render_hop h (Woken k) = woken_line (h_color h) (tid k)"
| "render_hop h (Waited f) =
     blocked_line (h_color h) (tid f) (duration_ns f) (magenta (h_color h) (show_futex (key f)))"
| "render_hop h (Did_io io) = blocked_line (h_color h) (tid io) (duration_ns io) (show_io_key h (key io))"

definition render_cause :: "host \<Rightarrow> cause \<Rightarrow> string" where
  "render_cause h c = (case c of
     Futex w \<Rightarrow> ''on '' @ magenta (h_color h) (show_futex (key w))
   | BlockIo io \<Rightarrow> ''on '' @ show_io_key h (key io)
   | Unknown \<Rightarrow> dim (h_color h) ''(no correlated cause found)'')"

definition headline :: "host \<Rightarrow> trace_file \<Rightarrow> trace_event \<Rightarrow> cause \<Rightarrow> string" where
  "headline h tf b c =
     stall_line (h_color h)
       (fst (format_wall_time h dev_names_new (wall_ns_for tf (saturating_sub (timestamp_ns b) (duration_ns b))))) b
       (render_cause h c)"

lemma wall_time:
  "format_wall_time h dn ns =
     (fst (format_wall_time h dev_names_new ns), asking (Ask_localtime (ns div 1000000000)) dn)"
  by (simp add: format_wall_time_def Let_def)

section \<open>Refinement of the walk\<close>

lemma woke_iff_join:
  "nearest_preceding (t_futex_wake ty) (timestamp_ns w) (\<lambda>e. key e = key w) = Some k \<Longrightarrow> woke ty w k"
  "nearest_preceding (t_futex_wake ty) (timestamp_ns w) (\<lambda>e. key e = key w) = None \<Longrightarrow> \<not> woke ty w k"
proof -
  let ?j = "nearest_preceding (t_futex_wake ty) (timestamp_ns w) (\<lambda>e. key e = key w)"
  show "woke ty w k" if j: "?j = Some k"
  proof -
    note s = preceding.join_sound [OF j]
    have "timestamp_ns k' \<le> timestamp_ns k"
      if k': "k' \<in> set (t_futex_wake ty)" "key k' = key w" "timestamp_ns k' \<le> timestamp_ns w" for k'
      using preceding.join_nearest [OF j k'(1,2)] k'(3) s
      unfolding before_def age_def word_le_nat_alt by linarith
    then show ?thesis using s by (auto simp: woke_def before_def MATCH_WINDOW_NS_def)
  qed
  show "\<not> woke ty w k" if j: "?j = None"
    using preceding.join_complete [OF j, of k] by (auto simp: woke_def before_def MATCH_WINDOW_NS_def)
qed

lemma preceded_by_prior:
  assumes start: "start = saturating_sub (timestamp_ns k) (duration_ns k)"
  shows "classify_prior_cause (tid k) start ty = Futex c \<Longrightarrow>
      preceded_by ty k c \<and> c \<in> set (t_futex_wait ty) \<and> tid c = tid k"
    and "classify_prior_cause (tid k) start ty = BlockIo c \<Longrightarrow>
      preceded_by ty k c \<and> c \<in> set (t_block_io ty) \<and> tid c = tid k"
    and "classify_prior_cause (tid k) start ty = Unknown \<Longrightarrow> \<not> preceded_by ty k c"
proof -
  assume c: "classify_prior_cause (tid k) start ty = Futex c"
  then have "c \<in> set (t_futex_wait ty)" "tid c = tid k"
    unfolding classify_prior_Futex by (blast dest: preceding.join_sound)+
  with prior_latest [of "tid k" start ty c] c
  show "preceded_by ty k c \<and> c \<in> set (t_futex_wait ty) \<and> tid c = tid k"
    unfolding preceded_by_def Let_def start by blast
next
  assume c: "classify_prior_cause (tid k) start ty = BlockIo c"
  then have "c \<in> set (t_block_io ty)" "tid c = tid k"
    unfolding classify_prior_BlockIo by (blast dest: preceding.join_sound)+
  with prior_latest [of "tid k" start ty c] c
  show "preceded_by ty k c \<and> c \<in> set (t_block_io ty) \<and> tid c = tid k"
    unfolding preceded_by_def Let_def start by blast
next
  assume "classify_prior_cause (tid k) start ty = Unknown"
  then show "\<not> preceded_by ty k c"
    using prior_Unknown_none unfolding preceded_by_def Let_def start by blast
qed

lemma depth_left:
  "\<not> depth \<ge> MAX_CHAIN_DEPTH \<Longrightarrow>
   unat MAX_CHAIN_DEPTH - unat depth = Suc (unat MAX_CHAIN_DEPTH - unat (depth + 1))"
  using depth_increments [of depth] by (simp add: not_le word_less_nat_alt MAX_CHAIN_DEPTH_def)

text \<open>A walk that finds a wake and stops there, or one step further at a block I/O.\<close>

lemma walk_ends:
  assumes sound: "cache_sound h dn"
    and wake: "nearest_preceding (t_futex_wake ty) (timestamp_ns w) (\<lambda>e. key e = key w) = Some k"
    and last: "depth \<ge> MAX_CHAIN_DEPTH \<or>
      classify_prior_cause (tid k) (saturating_sub (timestamp_ns k) (duration_ns k)) ty \<in> insert Unknown (range BlockIo)"
  shows "\<exists>hs dn'. walk_from_futex_wait h w ty dn depth ls = (dn', ls @ map (render_hop h) hs)
    \<and> causal_chain ty (unat MAX_CHAIN_DEPTH - unat depth) w hs \<and> cache_sound h dn'"
proof -
  note walk = walk_from_futex_wait.simps [of h w ty dn depth ls] and k = woke_iff_join(1) [OF wake]
  let ?prior = "classify_prior_cause (tid k) (saturating_sub (timestamp_ns k) (duration_ns k)) ty"
  consider (limit) "depth \<ge> MAX_CHAIN_DEPTH" | (io) io where "\<not> depth \<ge> MAX_CHAIN_DEPTH" "?prior = BlockIo io"
    | (ran) "\<not> depth \<ge> MAX_CHAIN_DEPTH" "?prior = Unknown" using last by blast
  then show ?thesis
  proof cases
    case limit
    then have "unat MAX_CHAIN_DEPTH - unat depth = 0" by (simp add: word_le_nat_alt)
    with limit wake sound k show ?thesis
      by (auto simp: walk Let_def intro!: exI [of _ "[Woken k]"] causal_chain.depth_limit)
  next
    case io
    obtain d s where key: "unpack_block_key (key io) = (d, s)" by fastforce
    obtain m dn' where name: "dev_name h dn d = (m, dn')" by fastforce
    note m = dev.resolveD [OF sound name] and prior = preceded_by_prior(2) [OF refl io(2)]
    have "walk_from_futex_wait h w ty dn depth ls = (dn', ls @ map (render_hop h) [Woken k, Did_io io])"
      using wake io prior key name m by (simp add: walk Let_def show_io_key_def)
    with m k prior show ?thesis unfolding depth_left [OF io(1)] by (blast intro: causal_chain.waker_did_io)
  next
    case ran
    have "walk_from_futex_wait h w ty dn depth ls = (dn, ls @ map (render_hop h) [Woken k])"
      using wake ran by (simp add: walk Let_def)
    moreover have "causal_chain ty (unat MAX_CHAIN_DEPTH - unat depth) w [Woken k]"
      unfolding depth_left [OF ran(1)] using k preceded_by_prior(3) [OF refl ran(2)] by (rule causal_chain.waker_ran)
    ultimately show ?thesis using sound by blast
  qed
qed

lemma walk_refines:
  assumes "cache_sound h dn"
  shows "\<exists>hs dn'. walk_from_futex_wait h w ty dn depth ls = (dn', ls @ map (render_hop h) hs)
    \<and> causal_chain ty (unat MAX_CHAIN_DEPTH - unat depth) w hs \<and> cache_sound h dn'"
  using assms
proof (induction h w ty dn depth ls rule: walk_from_futex_wait.induct)
  case (1 h w ty dn depth ls)
  note walk = walk_from_futex_wait.simps [of h w ty dn depth ls]
  let ?prior = "\<lambda>k. classify_prior_cause (tid k) (saturating_sub (timestamp_ns k) (duration_ns k)) ty"
  consider (none) "nearest_preceding (t_futex_wake ty) (timestamp_ns w) (\<lambda>e. key e = key w) = None"
    | (ends) k where "nearest_preceding (t_futex_wake ty) (timestamp_ns w) (\<lambda>e. key e = key w) = Some k"
        "depth \<ge> MAX_CHAIN_DEPTH \<or> ?prior k \<in> insert Unknown (range BlockIo)"
    | (on) k f where "nearest_preceding (t_futex_wake ty) (timestamp_ns w) (\<lambda>e. key e = key w) = Some k"
        "\<not> depth \<ge> MAX_CHAIN_DEPTH" "?prior k = Futex f"
  proof (cases "nearest_preceding (t_futex_wake ty) (timestamp_ns w) (\<lambda>e. key e = key w)")
    case (Some k)
    then show ?thesis by (cases "?prior k") (use that in auto)
  qed (rule that(1))
  then show ?case
  proof cases
    case none
    then show ?thesis
      using 1(2) woke_iff_join(2) [OF none] by (auto simp: walk intro!: exI [of _ "[]"] causal_chain.no_wake)
  next
    case ends
    then show ?thesis by (rule walk_ends [OF 1(2)])
  next
    case on
    note f = preceded_by_prior(1) [OF refl on(3)] and k = woke_iff_join(1) [OF on(1)]
    from 1(1) [OF on(1) refl on(2) refl on(3) 1(2)] obtain hs dn' where
      "walk_from_futex_wait h w ty dn depth ls = (dn', ls @ map (render_hop h) (Woken k # Waited f # hs))"
      "causal_chain ty (unat MAX_CHAIN_DEPTH - unat (depth + 1)) f hs" "cache_sound h dn'"
      using on f by (auto simp: walk Let_def)
    with k f show ?thesis unfolding depth_left [OF on(2)] by (blast intro: causal_chain.waker_waited)
  qed
qed

section \<open>Refinement of a stall\<close>

text \<open>
  Why a blocked interval ended: the futex wait of the same thread that returned first after
  the resume, or the block I/O of the thread that completed last before it, whichever is
  closer, within 5 ms.
\<close>

definition resumed_by_futex :: "typed \<Rightarrow> trace_event \<Rightarrow> trace_event \<Rightarrow> bool" where
  "resumed_by_futex ty b w \<longleftrightarrow>
     (let t = tid b; ts = timestamp_ns b in
      w \<in> set (t_futex_wait ty) \<and> tid w = t \<and> ts \<le> timestamp_ns w \<and> lag ts (timestamp_ns w) \<le> 5000000 \<and>
      (\<forall>g\<in>set (t_futex_wait ty). tid g = t \<longrightarrow> ts \<le> timestamp_ns g \<longrightarrow>
         lag ts (timestamp_ns w) \<le> lag ts (timestamp_ns g)) \<and>
      (\<forall>i\<in>set (t_block_io ty). tid i = t \<longrightarrow> timestamp_ns i \<le> ts \<longrightarrow>
         lag ts (timestamp_ns w) \<le> age ts (timestamp_ns i)))"

definition resumed_by_io :: "typed \<Rightarrow> trace_event \<Rightarrow> trace_event \<Rightarrow> bool" where
  "resumed_by_io ty b i \<longleftrightarrow>
     (let t = tid b; ts = timestamp_ns b in
      i \<in> set (t_block_io ty) \<and> tid i = t \<and> timestamp_ns i \<le> ts \<and> age ts (timestamp_ns i) \<le> 5000000 \<and>
      (\<forall>j\<in>set (t_block_io ty). tid j = t \<longrightarrow> timestamp_ns j \<le> ts \<longrightarrow>
         age ts (timestamp_ns i) \<le> age ts (timestamp_ns j)) \<and>
      (\<forall>f\<in>set (t_futex_wait ty). tid f = t \<longrightarrow> ts \<le> timestamp_ns f \<longrightarrow>
         age ts (timestamp_ns i) < lag ts (timestamp_ns f)))"

definition resume_unexplained :: "typed \<Rightarrow> trace_event \<Rightarrow> bool" where
  "resume_unexplained ty b \<longleftrightarrow>
     (let t = tid b; ts = timestamp_ns b in
      (\<forall>f\<in>set (t_futex_wait ty). tid f = t \<longrightarrow> ts \<le> timestamp_ns f \<longrightarrow> 5000000 < lag ts (timestamp_ns f)) \<and>
      (\<forall>i\<in>set (t_block_io ty). tid i = t \<longrightarrow> timestamp_ns i \<le> ts \<longrightarrow> 5000000 < age ts (timestamp_ns i)))"

definition stall_explained :: "typed \<Rightarrow> trace_event \<Rightarrow> cause \<Rightarrow> hop list \<Rightarrow> bool" where
  "stall_explained ty b c hs \<longleftrightarrow>
     (case c of
        Futex w \<Rightarrow> resumed_by_futex ty b w \<and> causal_chain ty 7 w hs
      | BlockIo io \<Rightarrow> resumed_by_io ty b io \<and> hs = []
      | Unknown \<Rightarrow> resume_unexplained ty b \<and> hs = [])"

text \<open>The asks a headline makes before the lines below it are looked for.\<close>

definition headline_asked :: "trace_file \<Rightarrow> trace_event \<Rightarrow> dev_names \<Rightarrow> dev_names" where
  "headline_asked tf b dn = asking Ask_color (asking
     (Ask_localtime (wall_ns_for tf (saturating_sub (timestamp_ns b) (duration_ns b)) div 1000000000)) dn)"

lemma cache_sound_headline [simp]: "cache_sound h (headline_asked tf b dn) \<longleftrightarrow> cache_sound h dn"
  by (simp add: headline_asked_def)

lemma one_stall_cases:
  "explain_one_stall h b tf ty dn =
     (case classify_resume_cause (tid b) (timestamp_ns b) ty of
        Futex w \<Rightarrow> (case walk_from_futex_wait h w ty (headline_asked tf b dn) 1 [headline h tf b (Futex w)] of
          (dn, ls) \<Rightarrow> (ls, dn))
      | BlockIo io \<Rightarrow> (case unpack_block_key (key io) of (d, sector) \<Rightarrow>
          case dev_name h (headline_asked tf b dn) d of (name, dn) \<Rightarrow>
            ([stall_line (h_color h) (fst (format_wall_time h dev_names_new
                (wall_ns_for tf (saturating_sub (timestamp_ns b) (duration_ns b))))) b
                (''on '' @ cyan (h_color h) (show_io name sector))], dn))
      | Unknown \<Rightarrow> ([headline h tf b Unknown], headline_asked tf b dn))"
  unfolding explain_one_stall_def wall_time [of h dn]
  by (simp add: Let_def headline_def render_cause_def headline_asked_def split: cause.split)

lemma one_stall_refines:
  assumes "cache_sound h dn"
  shows "\<exists>c hs dn'. explain_one_stall h b tf ty dn = (headline h tf b c # map (render_hop h) hs, dn')
    \<and> stall_explained ty b c hs \<and> cache_sound h dn'"
proof (cases "classify_resume_cause (tid b) (timestamp_ns b) ty")
  case (Futex w)
  have "resumed_by_futex ty b w"
    using resume_Futex_closest [OF Futex] by (simp add: resumed_by_futex_def Let_def)
  moreover have "unat MAX_CHAIN_DEPTH - unat (1 :: u32) = 7" by (simp add: MAX_CHAIN_DEPTH_def)
  with walk_refines [of h "headline_asked tf b dn" w ty 1 "[headline h tf b (Futex w)]"] assms obtain hs dn' where
    "walk_from_futex_wait h w ty (headline_asked tf b dn) 1 [headline h tf b (Futex w)] =
       (dn', headline h tf b (Futex w) # map (render_hop h) hs)"
    "causal_chain ty 7 w hs" "cache_sound h dn'" by auto
  ultimately show ?thesis
    using Futex by (intro exI [of _ "Futex w"]) (auto simp: one_stall_cases stall_explained_def)
next
  case (BlockIo io)
  obtain d s where key: "unpack_block_key (key io) = (d, s)" by fastforce
  obtain m dn' where name: "dev_name h (headline_asked tf b dn) d = (m, dn')" by fastforce
  have m: "m = dev_meaning h d" "cache_sound h dn'" using dev.resolveD [OF _ name] assms by simp_all
  have "explain_one_stall h b tf ty dn = (headline h tf b (BlockIo io) # map (render_hop h) [], dn')"
    using BlockIo key name m
    by (simp add: one_stall_cases headline_def render_cause_def show_io_key_def)
  moreover have "stall_explained ty b (BlockIo io) []"
    using resume_BlockIo_closest [OF BlockIo] by (simp add: stall_explained_def resumed_by_io_def Let_def)
  ultimately show ?thesis using m by blast
next
  case Unknown
  then have "explain_one_stall h b tf ty dn =
      (headline h tf b Unknown # map (render_hop h) [], headline_asked tf b dn)"
    by (simp add: one_stall_cases)
  moreover have "stall_explained ty b Unknown []"
    using resume_Unknown_none [OF Unknown]
    by (simp add: stall_explained_def resume_unexplained_def Let_def)
  ultimately show ?thesis using assms cache_sound_headline by blast
qed

definition chain_of :: "host \<Rightarrow> trace_file \<Rightarrow> typed \<Rightarrow> trace_event \<Rightarrow> string list \<Rightarrow> bool" where
  "chain_of h tf ty b ls \<longleftrightarrow>
     (\<exists>c hs. stall_explained ty b c hs \<and> ls = headline h tf b c # map (render_hop h) hs)"

lemma stalls_refine:
  "cache_sound h dn \<Longrightarrow> list_all2 (chain_of h tf ty) bs (fst (explain_stalls h tf ty dn bs))"
proof (induction bs arbitrary: dn)
  case (Cons b bs)
  obtain c hs dn' where one: "explain_one_stall h b tf ty dn = (headline h tf b c # map (render_hop h) hs, dn')"
    and "stall_explained ty b c hs" "cache_sound h dn'"
    using one_stall_refines [OF Cons.prems] by blast
  then show ?case
    using Cons.IH [of dn'] by (auto simp: chain_of_def split: prod.split)
qed simp

section \<open>The shape of a chain\<close>

lemma wokeD:
  "woke ty w k \<Longrightarrow> k \<in> set (t_futex_wake ty) \<and> key k = key w \<and> timestamp_ns k \<le> timestamp_ns w
     \<and> age (timestamp_ns w) (timestamp_ns k) \<le> 5000000"
  by (simp add: woke_def)

lemma preceded_byD:
  assumes "preceded_by ty k c"
  shows "c \<in> set (t_futex_wait ty) \<union> set (t_block_io ty) \<and> tid c = tid k
    \<and> timestamp_ns c \<le> timestamp_ns k"
  using assms saturating_sub_le [of "timestamp_ns k" "duration_ns k"]
  by (auto simp: preceded_by_def Let_def prior_event_def intro: order_trans)

lemma chain_length: "causal_chain ty n w hs \<Longrightarrow> length hs \<le> 2 * n + 1"
  by (induction rule: causal_chain.induct) auto

text \<open>Reading down the lines goes back in time.\<close>

lemma chain_times:
  "causal_chain ty n w hs \<Longrightarrow>
     sorted_wrt (\<lambda>x y. timestamp_ns y \<le> timestamp_ns x) (w # map hop_event hs)"
proof (induction rule: causal_chain.induct)
  case (waker_waited w k f n hs)
  then show ?case using wokeD [of ty w k] preceded_byD [of ty k f] by (auto intro: order_trans)
qed (auto dest!: wokeD preceded_byD intro: order_trans)

text \<open>Odd lines name a waker, even ones what that thread had waited for; I/O ends the chain.\<close>

fun alternates :: "hop list \<Rightarrow> bool" where
  "alternates [] = True"
| "alternates [Woken k] = True"
| "alternates [Woken k, Did_io io] = (tid io = tid k)"
| "alternates (Woken k # Waited f # hs) =
     (tid f = tid k \<and> (case hs of Woken k' # _ \<Rightarrow> key k' = key f | _ \<Rightarrow> True) \<and> alternates hs)"
| "alternates _ = False"

lemma chain_head: "causal_chain ty n w hs \<Longrightarrow> hs = [] \<or> (\<exists>k hs'. hs = Woken k # hs' \<and> key k = key w)"
  by (induction rule: causal_chain.induct) (auto dest: wokeD)

lemma chain_alternates: "causal_chain ty n w hs \<Longrightarrow> alternates hs"
proof (induction rule: causal_chain.induct)
  case (waker_waited w k f n hs)
  then show ?case using chain_head [OF waker_waited(4)] preceded_byD [of ty k f] by auto
qed (auto dest!: preceded_byD)

definition hop_from :: "typed \<Rightarrow> hop \<Rightarrow> bool" where
  "hop_from ty x \<longleftrightarrow> (case x of Woken k \<Rightarrow> k \<in> set (t_futex_wake ty)
     | Waited f \<Rightarrow> f \<in> set (t_futex_wait ty) | Did_io i \<Rightarrow> i \<in> set (t_block_io ty))"

lemma chain_recorded: "causal_chain ty n w hs \<Longrightarrow> list_all (hop_from ty) hs"
  by (induction rule: causal_chain.induct) (auto simp: hop_from_def dest: wokeD)

section \<open>The chain is determined\<close>

text \<open>
  Where time stamps tell the recorded events apart, a stall has one explanation only, so
  the relation and the walker say the same.
\<close>

definition clear_times :: "typed \<Rightarrow> bool" where
  "clear_times ty \<longleftrightarrow> inj_on timestamp_ns (set (t_futex_wait ty) \<union> set (t_block_io ty))
     \<and> inj_on timestamp_ns (set (t_futex_wake ty)) \<and> set (t_futex_wait ty) \<inter> set (t_block_io ty) = {}"

inductive_cases causal_chainE: "causal_chain ty n w hs"

lemma clear_timesD:
  assumes "clear_times ty"
  shows "e \<in> set (t_futex_wait ty) \<union> set (t_block_io ty) \<Longrightarrow> e' \<in> set (t_futex_wait ty) \<union> set (t_block_io ty) \<Longrightarrow>
      timestamp_ns e = timestamp_ns e' \<Longrightarrow> e = e'"
    "k \<in> set (t_futex_wake ty) \<Longrightarrow> k' \<in> set (t_futex_wake ty) \<Longrightarrow> timestamp_ns k = timestamp_ns k' \<Longrightarrow> k = k'"
    "e \<in> set (t_futex_wait ty) \<Longrightarrow> e \<in> set (t_block_io ty) \<Longrightarrow> False"
  using assms unfolding clear_times_def by (auto dest: inj_onD)

lemma woke_unique: "clear_times ty \<Longrightarrow> woke ty w k \<Longrightarrow> woke ty w k' \<Longrightarrow> k = k'"
  unfolding woke_def by (blast intro: clear_timesD(2) antisym)

lemma preceded_unique: "clear_times ty \<Longrightarrow> preceded_by ty k c \<Longrightarrow> preceded_by ty k c' \<Longrightarrow> c = c'"
  unfolding preceded_by_def Let_def prior_event_def by (blast intro: clear_timesD(1) antisym)

lemma causal_chain_unique:
  assumes "clear_times ty"
  shows "causal_chain ty n w hs \<Longrightarrow> causal_chain ty n w hs' \<Longrightarrow> hs = hs'"
proof (induction arbitrary: hs' rule: causal_chain.induct)
  case (waker_waited w k f n hs)
  note unique = woke_unique [OF assms waker_waited.hyps(1)] preceded_unique [OF assms waker_waited.hyps(2)]
    clear_timesD(3) [OF assms waker_waited.hyps(3)]
  show ?case
    by (rule causal_chainE [OF waker_waited.prems]; use waker_waited.hyps waker_waited.IH unique in blast)
qed (erule causal_chainE; use woke_unique [OF assms] preceded_unique [OF assms] clear_timesD(3) [OF assms] in blast)+

lemma lag_inj: "a \<le> t \<Longrightarrow> a \<le> t' \<Longrightarrow> lag a t = lag a t' \<Longrightarrow> t = t'"
  by (simp add: lag_def word_le_nat_alt word_unat_eq_iff)

lemma age_inj: "t \<le> a \<Longrightarrow> t' \<le> a \<Longrightarrow> age a t = age a t' \<Longrightarrow> t = t'"
  by (simp add: age_def word_le_nat_alt word_unat_eq_iff)

lemma resumed_unique:
  assumes "clear_times ty"
  shows "resumed_by_futex ty b w \<Longrightarrow> resumed_by_futex ty b w' \<Longrightarrow> w = w'"
    "resumed_by_io ty b i \<Longrightarrow> resumed_by_io ty b i' \<Longrightarrow> i = i'"
    "resumed_by_futex ty b w \<Longrightarrow> \<not> resumed_by_io ty b i"
    "resume_unexplained ty b \<Longrightarrow> \<not> resumed_by_futex ty b w \<and> \<not> resumed_by_io ty b i"
proof -
  show "resumed_by_futex ty b w \<Longrightarrow> resumed_by_futex ty b w' \<Longrightarrow> w = w'"
    unfolding resumed_by_futex_def Let_def by (blast intro: clear_timesD(1) [OF assms] lag_inj antisym)
  show "resumed_by_io ty b i \<Longrightarrow> resumed_by_io ty b i' \<Longrightarrow> i = i'"
    unfolding resumed_by_io_def Let_def by (blast intro: clear_timesD(1) [OF assms] age_inj antisym)
  show "resumed_by_futex ty b w \<Longrightarrow> \<not> resumed_by_io ty b i"
    unfolding resumed_by_futex_def resumed_by_io_def Let_def by (meson leD)
  show "resume_unexplained ty b \<Longrightarrow> \<not> resumed_by_futex ty b w \<and> \<not> resumed_by_io ty b i"
    unfolding resumed_by_futex_def resumed_by_io_def resume_unexplained_def Let_def by (meson leD)
qed

lemma stall_explained_unique:
  assumes "clear_times ty" and "stall_explained ty b c hs" and "stall_explained ty b c' hs'"
  shows "c = c' \<and> hs = hs'"
  using assms(2,3) resumed_unique [OF assms(1)] causal_chain_unique [OF assms(1)]
  by (cases c; cases c'; simp add: stall_explained_def; metis)

end
