(* ===== verification/Explain_Properties.thy ===== *)
theory Explain_Properties
  imports Causal_Chains
begin

text \<open>
  The properties of \<open>explain\<close>: it explains the slowest stalls, every chain it prints is a
  causal chain of recorded events, chains are short and go back in time, and neither the
  device-name cache, nor colour, nor the order of the recorded events shows in the output.
\<close>

section \<open>The cache\<close>

lemma walk_cache_irrelevant:
  "cache_sound h dn \<Longrightarrow> cache_sound h dn' \<Longrightarrow>
   snd (walk_from_futex_wait h w ty dn depth ls) = snd (walk_from_futex_wait h w ty dn' depth ls)"
proof (induction h w ty dn depth ls arbitrary: dn' rule: walk_from_futex_wait.induct)
  case (1 h w ty dn depth ls)
  note walk = walk_from_futex_wait.simps [of h w ty _ depth ls]
  show ?case
  proof (cases "nearest_preceding (t_futex_wake ty) (timestamp_ns w) (\<lambda>e. key e = key w)")
    case None
    then show ?thesis by (simp add: walk)
  next
    case wake: (Some k)
    show ?thesis
    proof (cases "classify_prior_cause (tid k) (saturating_sub (timestamp_ns k) (duration_ns k)) ty")
      case (Futex f)
      show ?thesis
        using 1(1) [OF wake refl _ refl Futex 1(2,3)] wake Futex by (simp add: walk Let_def)
    next
      case (BlockIo io)
      then show ?thesis
        using wake dev.agree [OF 1(2,3)] by (simp add: walk Let_def split_beta)
    next
      case Unknown
      then show ?thesis using wake by (simp add: walk Let_def)
    qed
  qed
qed

lemma one_stall_cache_irrelevant:
  "cache_sound h dn \<Longrightarrow> cache_sound h dn' \<Longrightarrow>
   fst (explain_one_stall h b tf ty dn) = fst (explain_one_stall h b tf ty dn')"
  using walk_cache_irrelevant [of h "headline_asked tf b dn" "headline_asked tf b dn'"]
    dev.agree [of h "headline_asked tf b dn" "headline_asked tf b dn'"]
  by (simp add: one_stall_cases split_beta split: cause.split)

lemma one_stall_cache_sound:
  "cache_sound h dn \<Longrightarrow> cache_sound h (snd (explain_one_stall h b tf ty dn))"
  using one_stall_refines [of h dn b tf ty] by auto

lemma stalls_fresh_cache:
  "cache_sound h dn \<Longrightarrow> fst (explain_stalls h tf ty dn bs) =
     map (\<lambda>b. fst (explain_one_stall h b tf ty dev_names_new)) bs"
proof (induction bs arbitrary: dn)
  case (Cons b bs)
  have "fst (explain_one_stall h b tf ty dn) = fst (explain_one_stall h b tf ty dev_names_new)"
    by (rule one_stall_cache_irrelevant) (simp_all add: Cons.prems)
  then show ?case
    using Cons.IH [OF one_stall_cache_sound [OF Cons.prems, of b tf ty]] by (simp add: split_beta)
qed simp

text \<open>The stalls that \<open>explain\<close> selects.\<close>

definition slowest_stalls :: "trace_file \<Rightarrow> u64 \<Rightarrow> trace_event list" where
  "slowest_stalls tf n = take (unat n) (sort_by longer_first (t_block (typed_partition (events tf))))"

lemma explain_fresh:
  "explain h tf n = map (\<lambda>b. fst (explain_one_stall h b tf (typed_partition (events tf)) dev_names_new))
     (slowest_stalls tf n)"
  by (simp add: explain_def explain_run_def Let_def slowest_stalls_def stalls_fresh_cache)

lemma explain_chains:
  "list_all2 (chain_of h tf (typed_partition (events tf))) (slowest_stalls tf n) (explain h tf n)"
  by (simp add: explain_def explain_run_def Let_def slowest_stalls_def stalls_refine)

lemma stall_chain_length: "stall_explained ty b c hs \<Longrightarrow> length hs \<le> 15"
  using chain_length [of ty 7 _ hs] by (cases c) (auto simp: stall_explained_def)

lemma chain_of_length: "chain_of h tf ty b ls \<Longrightarrow> 1 \<le> length ls \<and> length ls \<le> 16"
  by (auto simp: chain_of_def dest!: stall_chain_length)

section \<open>What the explanation asks the machine for\<close>

definition dev_link :: "u32 \<Rightarrow> string" where
  "dev_link d = dev_path (drop_bit 20 d) (d AND 0xFFFFF)"

definition io_devs :: "typed \<Rightarrow> u32 set" where
  "io_devs ty = (\<lambda>io. fst (unpack_block_key (key io))) ` set (t_block_io ty)"

fun is_link :: "ask \<Rightarrow> bool" where
  "is_link (Ask_link p) = True"
| "is_link q = False"

lemma dec_colon: "CHR '':'' \<notin> set (dec n)"
proof
  assume "CHR '':'' \<in> set (dec n)"
  then obtain d where "d < 10" "CHR '':'' = digit_char d" using set_show_base [of _ 10 n] by (auto simp: dec_def)
  then have "(of_char (CHR '':'') :: nat) = of_char (digit_char d)" by simp
  with \<open>d < 10\<close> show False by (simp add: digit_char_def split: if_splits)
qed

lemma dec_pair_inject:
  assumes "dec a @ CHR '':'' # dec b = dec c @ CHR '':'' # dec d"
  shows "a = c \<and> b = d"
proof -
  have "takeWhile (\<lambda>x. x \<noteq> CHR '':'') (dec m @ CHR '':'' # s) = dec m" for m s
    using dec_colon [of m] by (subst takeWhile_append2) auto
  with arg_cong [OF assms, of "takeWhile (\<lambda>x. x \<noteq> CHR '':'')"] have "a = c" by simp
  with assms show ?thesis by simp
qed

lemma dev_link_inject [simp]: "dev_link d = dev_link d' \<longleftrightarrow> d = d'"
proof
  have split: "push_bit 20 (drop_bit 20 x) + (x AND 0xFFFFF) = x" for x :: u32
  proof -
    have "(0xFFFFF :: u32) = mask 20" by (simp add: mask_eq_exp_minus_1)
    then show ?thesis using bits_ident [of 20 x] by (simp add: take_bit_eq_mask)
  qed
  assume "dev_link d = dev_link d'"
  then have "unat (drop_bit 20 d) = unat (drop_bit 20 d') \<and> unat (d AND 0xFFFFF) = unat (d' AND 0xFFFFF)"
    unfolding dev_link_def dev_path_def by (intro dec_pair_inject) simp
  then show "d = d'" using split [of d] split [of d'] by (metis word_unat_eq_iff)
qed simp

text \<open>
  Links are read for devices of recorded block I/O only, and for each of them once: those
  asked for are in the cache.
\<close>

definition asks_ok :: "typed \<Rightarrow> dev_names \<Rightarrow> bool" where
  "asks_ok ty dn \<longleftrightarrow> dom (cache dn) \<subseteq> io_devs ty
     \<and> set (filter is_link (asked dn)) \<subseteq> (\<lambda>d. Ask_link (dev_link d)) ` dom (cache dn)
     \<and> distinct (filter is_link (asked dn))"

lemma asks_ok_new [simp]: "asks_ok ty dev_names_new"
  by (simp add: asks_ok_def dev_names_new_def)

lemma asks_ok_asking [simp]: "\<not> is_link q \<Longrightarrow> asks_ok ty (asking q dn) \<longleftrightarrow> asks_ok ty dn"
  by (simp add: asks_ok_def)

lemma asks_ok_name:
  assumes "asks_ok ty dn" and "io \<in> set (t_block_io ty)"
  shows "asks_ok ty (snd (dev_name h dn (fst (unpack_block_key (key io)))))"
proof (cases "cache dn (fst (unpack_block_key (key io)))")
  case None
  let ?d = "fst (unpack_block_key (key io))"
  have "?d \<in> io_devs ty" using assms(2) by (simp add: io_devs_def)
  moreover have "Ask_link (dev_link ?d) \<notin> set (filter is_link (asked dn))"
    using assms(1) None by (auto simp: asks_ok_def)
  ultimately show ?thesis
    using assms(1) None by (auto simp: dev_name_meaning asks_ok_def dev_link_def [symmetric])
qed (use assms(1) in \<open>simp add: dev_name_meaning\<close>)

lemma asks_ok_walk: "asks_ok ty dn \<Longrightarrow> asks_ok ty (fst (walk_from_futex_wait h w ty dn depth ls))"
proof (induction h w ty dn depth ls rule: walk_from_futex_wait.induct)
  case (1 h w ty dn depth ls)
  note walk = walk_from_futex_wait.simps [of h w ty dn depth ls]
  show ?case
  proof (cases "nearest_preceding (t_futex_wake ty) (timestamp_ns w) (\<lambda>e. key e = key w)")
    case None
    then show ?thesis using 1(2) by (simp add: walk)
  next
    case wake: (Some k)
    show ?thesis
    proof (cases "classify_prior_cause (tid k) (saturating_sub (timestamp_ns k) (duration_ns k)) ty")
      case (Futex f)
      show ?thesis using 1(1) [OF wake refl _ refl Futex 1(2)] 1(2) wake Futex by (simp add: walk Let_def)
    next
      case (BlockIo io)
      then have "io \<in> set (t_block_io ty)" using preceded_by_prior(2) [OF refl BlockIo] by blast
      then show ?thesis
        using wake BlockIo 1(2) asks_ok_name [OF 1(2)] by (simp add: walk Let_def split_beta)
    next
      case Unknown
      then show ?thesis using wake 1(2) by (simp add: walk Let_def)
    qed
  qed
qed

lemma asks_ok_stall:
  assumes "asks_ok ty dn"
  shows "asks_ok ty (snd (explain_one_stall h b tf ty dn))"
proof -
  have ok: "asks_ok ty (headline_asked tf b dn)" using assms by (simp add: headline_asked_def)
  have "io \<in> set (t_block_io ty)" if "classify_resume_cause (tid b) (timestamp_ns b) ty = BlockIo io" for io
    using resume_BlockIo_closest [OF that] by blast
  then show ?thesis
    using ok asks_ok_walk [OF ok] asks_ok_name [OF ok]
    by (auto simp: one_stall_cases split_beta split: cause.split)
qed

lemma asks_ok_stalls: "asks_ok ty dn \<Longrightarrow> asks_ok ty (snd (explain_stalls h tf ty dn bs))"
  by (induction bs arbitrary: dn) (simp_all add: split_beta asks_ok_stall)

lemma explain_asks_links:
  shows "distinct (filter is_link (explain_asks h tf n))"
    and "Ask_link p \<in> set (explain_asks h tf n) \<Longrightarrow>
      \<exists>io\<in>set (events tf). event_type io = EVENT_BLOCK_IO \<and> p = dev_link (fst (unpack_block_key (key io)))"
proof -
  let ?ty = "typed_partition (events tf)"
  have ok: "asks_ok ?ty (snd (explain_run h tf n))" by (simp add: explain_run_def Let_def asks_ok_stalls)
  then show "distinct (filter is_link (explain_asks h tf n))"
    by (simp add: explain_asks_def asks_ok_def rev_filter [symmetric])
  assume "Ask_link p \<in> set (explain_asks h tf n)"
  then have "Ask_link p \<in> set (filter is_link (asked (snd (explain_run h tf n))))" by (simp add: explain_asks_def)
  then have "Ask_link p \<in> (\<lambda>d. Ask_link (dev_link d)) ` io_devs ?ty" using ok unfolding asks_ok_def by blast
  then obtain d where "d \<in> io_devs ?ty" "p = dev_link d" by blast
  then show "\<exists>io\<in>set (events tf). event_type io = EVENT_BLOCK_IO \<and> p = dev_link (fst (unpack_block_key (key io)))"
    by (auto simp: io_devs_def typed_partition_filter)
qed

section \<open>Colour\<close>

definition monochrome :: "host \<Rightarrow> host" where
  "monochrome h = h\<lparr>h_color := False\<rparr>"

lemma monochrome_sel [simp]:
  "h_color (monochrome h) = False" "dev_name (monochrome h) = dev_name h"
  "format_wall_time (monochrome h) = format_wall_time h"
  by (auto simp: monochrome_def dev_name_def format_wall_time_def fun_eq_iff Let_def split: option.split)

lemma plain_texts [simp]:
  "plain (format_duration d)" "plain (fst (format_wall_time h dn ns))" "plain (show_tid t)" "plain (show_futex k)"
  "plain left_arrow" "plain em_dash" "plain (show_io s x) \<longleftrightarrow> plain s"
  by (simp_all add: format_duration_def fmt_fixed2_def Let_def format_wall_time_def show_tid_def
      show_futex_def show_io_def left_arrow_def em_dash_def micro_sign_def ESC_def)

lemma strip_ansi_Cons: "c \<noteq> ESC \<Longrightarrow> strip_ansi (c # s) = c # strip_ansi s"
  by simp

lemmas strip_rules = strip_painters strip_painters_end strip_ansi_Cons

lemma painters_off [simp]:
  "dim False s = s" "green False s = s" "bold_yellow False s = s" "bold_red False s = s"
  "magenta False s = s" "cyan False s = s" "blue False s = s" "bold_cyan False s = s"
  by (simp_all add: painters)

lemma char_not_ESC [simp]:
  "CHR '' '' \<noteq> ESC" "CHR ''b'' \<noteq> ESC" "CHR ''l'' \<noteq> ESC" "CHR ''o'' \<noteq> ESC" "CHR ''c'' \<noteq> ESC"
  "CHR ''k'' \<noteq> ESC" "CHR ''e'' \<noteq> ESC" "CHR ''d'' \<noteq> ESC" "CHR ''n'' \<noteq> ESC" "CHR ''w'' \<noteq> ESC"
  "CHR ''y'' \<noteq> ESC"
  by (simp_all add: ESC_def)

lemma strip_lines:
  "strip_ansi (woken_line en t) = woken_line False t"
  "strip_ansi (blocked_line en t d what) = blocked_line False t d (strip_ansi what)"
  "plain wall \<Longrightarrow> strip_ansi (stall_line en wall b what) = stall_line False wall b (strip_ansi what)"
  by (simp_all add: woken_line_def blocked_line_def stall_line_def strip_rules del: strip_ansi.simps)

lemma strip_shows:
  "strip_ansi (magenta en (show_futex k)) = show_futex k"
  "plain s \<Longrightarrow> strip_ansi (cyan en (show_io s x)) = show_io s x"
  "strip_ansi (''on '' @ what) = ''on '' @ strip_ansi what"
  "strip_ansi (dim en ''(no correlated cause found)'') = ''(no correlated cause found)''"
  by (simp_all add: strip_rules ESC_def del: strip_ansi.simps)

lemma strip_walk:
  assumes "\<And>d. plain (dev_meaning h d)"
  shows "cache_sound h dn \<Longrightarrow>
    (case walk_from_futex_wait h w ty dn depth ls of (dn', ls') \<Rightarrow> (dn', map strip_ansi ls'))
      = walk_from_futex_wait (monochrome h) w ty dn depth (map strip_ansi ls)"
  using assms
proof (induction h w ty dn depth ls rule: walk_from_futex_wait.induct)
  case (1 h w ty dn depth ls)
  note walk = walk_from_futex_wait.simps [of h w ty dn depth ls]
    walk_from_futex_wait.simps [of "monochrome h" w ty dn depth "map strip_ansi ls"]
  show ?case
  proof (cases "nearest_preceding (t_futex_wake ty) (timestamp_ns w) (\<lambda>e. key e = key w)")
    case None
    then show ?thesis by (simp add: walk)
  next
    case wake: (Some k)
    show ?thesis
    proof (cases "classify_prior_cause (tid k) (saturating_sub (timestamp_ns k) (duration_ns k)) ty")
      case (Futex f)
      show ?thesis
        using 1(1) [OF wake refl _ refl Futex 1(2,3)] wake Futex
        by (simp add: walk Let_def strip_lines strip_shows)
    next
      case (BlockIo io)
      have "plain (fst (dev_name h dn d))" for d using dev.resolves [OF 1(2)] 1(3) by simp
      then show ?thesis
        using wake BlockIo by (simp add: walk Let_def split_beta strip_lines strip_shows)
    next
      case Unknown
      then show ?thesis using wake by (simp add: walk Let_def strip_lines)
    qed
  qed
qed

lemma strip_one_stall:
  assumes "\<And>d. plain (dev_meaning h d)"
  shows "map strip_ansi (fst (explain_one_stall h b tf ty dev_names_new))
    = fst (explain_one_stall (monochrome h) b tf ty dev_names_new)"
proof -
  let ?dn = "headline_asked tf b dev_names_new"
  have sound: "cache_sound h ?dn" by simp
  have "plain (fst (dev_name h ?dn d))" for d using assms dev.resolves [OF sound] by simp
  moreover have "map strip_ansi (snd (walk_from_futex_wait h w ty ?dn 1 [x]))
      = snd (walk_from_futex_wait (monochrome h) w ty ?dn 1 [strip_ansi x])" for w x
    using strip_walk [OF assms sound, of w ty 1 "[x]"]
    by (metis (no_types, lifting) list.map split_beta snd_conv)
  ultimately show ?thesis
    by (auto simp: one_stall_cases headline_def render_cause_def split_beta strip_lines strip_shows
        split: cause.split)
qed

lemma strip_print_chains:
  "map strip_ansi (print_chains en cs) = print_chains False (map (map strip_ansi) cs)"
proof -
  have "strip_ansi (rule_line en) = rule_line False"
    unfolding rule_line_def by (subst strip_painters_end) (simp_all add: plain_def ESC_def)
  then have "map strip_ansi (if b then [rule_line en] else []) = (if b then [rule_line False] else [])" for b
    by simp
  then show ?thesis
    by (simp add: print_chains_def strip_painters_end strip_rules strip_ansi.simps(1) ESC_def map_concat
        zip_map2 comp_def split_beta del: strip_ansi.simps(2) upt_Suc)
qed

section \<open>Order of the trace\<close>

lemma joins_set_cong:
  assumes "set cs = set cs'" and "inj_on timestamp_ns (set cs)"
  shows "nearest_preceding cs = nearest_preceding cs'" "nearest_following cs = nearest_following cs'"
proof -
  have inj: "inj_on timestamp_ns (set (filter Q cs))" for Q
    by (rule inj_on_subset [OF assms(2)]) auto
  have sets: "set (filter Q cs) = set (filter Q cs')" for Q using assms(1) by simp
  show "nearest_preceding cs = nearest_preceding cs'"
    by (intro ext) (simp only: nearest_preceding_def max_by_key_set_cong [OF sets inj])
  show "nearest_following cs = nearest_following cs'"
    by (intro ext) (simp only: nearest_following_def min_by_key_set_cong [OF sets inj])
qed

lemma classify_cong:
  assumes "nearest_preceding (t_futex_wait ty) = nearest_preceding (t_futex_wait ty')"
    "nearest_following (t_futex_wait ty) = nearest_following (t_futex_wait ty')"
    "nearest_preceding (t_block_io ty) = nearest_preceding (t_block_io ty')"
  shows "classify_prior_cause t ts ty = classify_prior_cause t ts ty'"
    "classify_resume_cause t ts ty = classify_resume_cause t ts ty'"
  by (simp_all only: classify_prior_cause_def classify_resume_cause_def assms)

lemma walk_cong:
  assumes "nearest_preceding (t_futex_wake ty) = nearest_preceding (t_futex_wake ty')"
    and "\<And>t ts. classify_prior_cause t ts ty = classify_prior_cause t ts ty'"
  shows "walk_from_futex_wait h w ty dn depth ls = walk_from_futex_wait h w ty' dn depth ls"
  using assms
proof (induction h w ty dn depth ls rule: walk_from_futex_wait.induct)
  case (1 h w ty dn depth ls)
  note walk = walk_from_futex_wait.simps [of h w ty dn depth ls]
    walk_from_futex_wait.simps [of h w ty' dn depth ls]
  show ?case
  proof (cases "nearest_preceding (t_futex_wake ty) (timestamp_ns w) (\<lambda>e. key e = key w)")
    case None
    then show ?thesis using 1(2) by (simp add: walk)
  next
    case wake: (Some k)
    note wake' = wake [unfolded 1(2)]
    show ?thesis
    proof (cases "classify_prior_cause (tid k) (saturating_sub (timestamp_ns k) (duration_ns k)) ty")
      case (Futex f)
      show ?thesis
        using 1(1) [OF wake refl _ refl Futex 1(2,3)] wake wake' Futex Futex [unfolded 1(3)]
        by (simp add: walk Let_def)
    next
      case (BlockIo io)
      then show ?thesis using wake wake' BlockIo [unfolded 1(3)] by (simp add: walk Let_def)
    next
      case Unknown
      then show ?thesis using wake wake' Unknown [unfolded 1(3)] by (simp add: walk Let_def)
    qed
  qed
qed

lemma explain_cong:
  assumes "mset evs = mset (events tf)"
    and ts: "inj_on (\<lambda>e. (event_type e, timestamp_ns e)) (set (events tf))"
    and ds: "inj_on duration_ns {e \<in> set (events tf). event_type e = EVENT_SCHED_BLOCK}"
  shows "explain h (tf\<lparr>events := evs\<rparr>) n = explain h tf n"
proof -
  let ?ty = "typed_partition evs" and ?ty' = "typed_partition (events tf)"
  have sets: "set evs = set (events tf)" using assms(1) by (metis set_mset_mset)
  have "inj_on timestamp_ns (set (filter (\<lambda>e. event_type e = x) evs))" for x
    using ts by (auto simp: inj_on_def sets)
  moreover have "set (filter P evs) = set (filter P (events tf))" for P using sets by simp
  ultimately have joins:
    "nearest_preceding (t_futex_wait ?ty) = nearest_preceding (t_futex_wait ?ty')"
    "nearest_following (t_futex_wait ?ty) = nearest_following (t_futex_wait ?ty')"
    "nearest_preceding (t_futex_wake ?ty) = nearest_preceding (t_futex_wake ?ty')"
    "nearest_preceding (t_block_io ?ty) = nearest_preceding (t_block_io ?ty')"
    unfolding typed_partition_filter by (blast intro: joins_set_cong)+
  note cls = classify_cong [OF joins(1,2,4)]
  note walk = walk_cong [OF joins(3) cls(1)]
  have stalls: "explain_one_stall h b (tf\<lparr>events := evs\<rparr>) ?ty dn = explain_one_stall h b tf ?ty' dn" for b dn
    by (simp add: explain_one_stall_def cls(2) walk wall_ns_for_def cong: cause.case_cong)
  have blocks: "sort_by longer_first (t_block ?ty) = sort_by longer_first (t_block ?ty')"
  proof (rule sorted_wrt_unique [of longer_first])
    show "mset (sort_by longer_first (t_block ?ty)) = mset (sort_by longer_first (t_block ?ty'))"
      using assms(1) by (simp add: typed_partition_filter)
    show "x = y" if "x \<in> set (sort_by longer_first (t_block ?ty))" "y \<in> set (sort_by longer_first (t_block ?ty))"
      "longer_first x y" "longer_first y x" for x y
      using that ds sets by (auto simp: typed_partition_filter longer_first_def inj_on_def)
  qed (auto intro!: sorted_sort_by simp: longer_first_def)
  show ?thesis by (simp add: explain_fresh slowest_stalls_def blocks stalls)
qed

section \<open>Properties\<close>

definition ex_host :: host where
  "ex_host = \<lparr>h_read_link = (\<lambda>p. None), h_localtime = (\<lambda>t. None), h_color = True\<rparr>"

text \<open>Thread 1 stalls on a futex that thread 2 releases after a disk read.\<close>

definition ex_trace :: trace_file where
  "ex_trace = \<lparr>realtime_anchor_ns = 5000, monotonic_anchor_ns = 0, events =
     [ex_event 980 800 (pack_block_key 0x800001 77) 2 EVENT_BLOCK_IO,
      ex_event 990 5 0xABC 2 EVENT_FUTEX_WAKE,
      ex_event 1000 900 0 1 EVENT_SCHED_BLOCK,
      ex_event 1010 910 0xABC 1 EVENT_FUTEX_WAIT]\<rparr>"

lemma ex_host_sound: "plain (dev_meaning ex_host d)"
  by (simp add: ex_host_def dev_meaning_def dev_name_def dev_names_new_def Let_def ESC_def)

lemma ex_partition:
  "t_block (typed_partition (events ex_trace)) = [ex_event 1000 900 0 1 EVENT_SCHED_BLOCK]"
  "t_futex_wait (typed_partition (events ex_trace)) = [ex_event 1010 910 0xABC 1 EVENT_FUTEX_WAIT]"
  "t_futex_wake (typed_partition (events ex_trace)) = [ex_event 990 5 0xABC 2 EVENT_FUTEX_WAKE]"
  "t_block_io (typed_partition (events ex_trace)) =
     [ex_event 980 800 (pack_block_key 0x800001 77) 2 EVENT_BLOCK_IO]"
  by (simp_all add: typed_partition_filter ex_trace_def event_types)

lemma ex_explained:
  "stall_explained (typed_partition (events ex_trace)) (ex_event 1000 900 0 1 EVENT_SCHED_BLOCK)
     (Futex (ex_event 1010 910 0xABC 1 EVENT_FUTEX_WAIT))
     [Woken (ex_event 990 5 0xABC 2 EVENT_FUTEX_WAKE),
      Did_io (ex_event 980 800 (pack_block_key 0x800001 77) 2 EVENT_BLOCK_IO)]"
proof -
  have "causal_chain (typed_partition (events ex_trace)) (Suc 6) (ex_event 1010 910 0xABC 1 EVENT_FUTEX_WAIT)
     [Woken (ex_event 990 5 0xABC 2 EVENT_FUTEX_WAKE),
      Did_io (ex_event 980 800 (pack_block_key 0x800001 77) 2 EVENT_BLOCK_IO)]"
    by (rule causal_chain.waker_did_io)
      (auto simp: woke_def preceded_by_def prior_event_def ex_partition age_def saturating_sub_def)
  then show ?thesis
    by (simp add: stall_explained_def resumed_by_futex_def ex_partition lag_def age_def)
qed

text \<open>C2: \<open>explain\<close> gives one chain for each of the slowest stalls: the selected stalls are as
  many as asked for or as there are, sorted by falling duration with ties in trace order,
  no unselected stall is longer, and the lines printed for each are the rendering of a
  chain of recorded events that explains it: its cause is the closest admissible one, each
  wake is the latest of that futex before the wait ended, and each step back is the last
  thing the waker finished before it began the wake call.\<close>

theorem explain_slowest_stalls_causally:
  "\<exists>bs rest.
     length bs = min (unat n) (length (filter (\<lambda>e. event_type e = EVENT_SCHED_BLOCK) (events tf))) \<and>
     mset (bs @ rest) = mset (filter (\<lambda>e. event_type e = EVENT_SCHED_BLOCK) (events tf)) \<and>
     sorted_wrt (\<lambda>a b. duration_ns b \<le> duration_ns a) (bs @ rest) \<and>
     (\<forall>d. filter (\<lambda>e. duration_ns e = d) (bs @ rest) =
          filter (\<lambda>e. event_type e = EVENT_SCHED_BLOCK \<and> duration_ns e = d) (events tf)) \<and>
     list_all2 (chain_of h tf (typed_partition (events tf))) bs (explain h tf n)"
proof (intro exI conjI)
  let ?blocks = "filter (\<lambda>e. event_type e = EVENT_SCHED_BLOCK) (events tf)"
  let ?rest = "drop (unat n) (sort_by longer_first ?blocks)"
  have all: "slowest_stalls tf n @ ?rest = sort_by longer_first ?blocks"
    by (simp add: slowest_stalls_def typed_partition_filter)
  show "length (slowest_stalls tf n) = min (unat n) (length ?blocks)"
    by (simp add: slowest_stalls_def typed_partition_filter min.commute)
  show "mset (slowest_stalls tf n @ ?rest) = mset ?blocks" unfolding all by simp
  show "sorted_wrt (\<lambda>a b. duration_ns b \<le> duration_ns a) (slowest_stalls tf n @ ?rest)"
    unfolding all longer_first_def by (rule sorted_sort_by) auto
  show "\<forall>d. filter (\<lambda>e. duration_ns e = d) (slowest_stalls tf n @ ?rest) =
      filter (\<lambda>e. event_type e = EVENT_SCHED_BLOCK \<and> duration_ns e = d) (events tf)"
    unfolding all by (subst filter_sort_by) (auto simp: longer_first_def conj_commute)
  show "list_all2 (chain_of h tf (typed_partition (events tf))) (slowest_stalls tf n) (explain h tf n)"
    by (rule explain_chains)
qed

text \<open>C4: Every explanation there is is printed: where time stamps tell the futex waits and block
  I/Os apart, and the wakes, the one chain that explains a stall is among the printed
  chains, if as many are asked for as there are stalls.\<close>

theorem explain_prints_every_explanation:
  assumes "clear_times (typed_partition (events tf))"
    and "b \<in> set (events tf)" and "event_type b = EVENT_SCHED_BLOCK"
    and "length (filter (\<lambda>e. event_type e = EVENT_SCHED_BLOCK) (events tf)) \<le> unat n"
    and "stall_explained (typed_partition (events tf)) b c hs"
  shows "headline h tf b c # map (render_hop h) hs \<in> set (explain h tf n)"
proof -
  have "set (slowest_stalls tf n) = set (filter (\<lambda>e. event_type e = EVENT_SCHED_BLOCK) (events tf))"
    using assms(4) by (simp add: slowest_stalls_def typed_partition_filter)
  then have "b \<in> set (slowest_stalls tf n)" using assms(2,3) by simp
  then obtain ls where ls: "ls \<in> set (explain h tf n)" "chain_of h tf (typed_partition (events tf)) b ls"
    using explain_chains [of h tf n] unfolding list_all2_conv_all_nth in_set_conv_nth by metis
  then show ?thesis using stall_explained_unique [OF assms(1) _ assms(5)] by (auto simp: chain_of_def)
qed

theorem explain_prints_every_explanation_witness:
  "headline ex_host ex_trace (ex_event 1000 900 0 1 EVENT_SCHED_BLOCK)
       (Futex (ex_event 1010 910 0xABC 1 EVENT_FUTEX_WAIT)) #
     map (render_hop ex_host) [Woken (ex_event 990 5 0xABC 2 EVENT_FUTEX_WAKE),
       Did_io (ex_event 980 800 (pack_block_key 0x800001 77) 2 EVENT_BLOCK_IO)]
   \<in> set (explain ex_host ex_trace 5)"
proof (rule explain_prints_every_explanation [OF _ _ _ _ ex_explained])
  show "clear_times (typed_partition (events ex_trace))"
    by (simp add: clear_times_def ex_partition event_types inj_on_def ex_event_def)
qed (simp_all add: ex_trace_def event_types)

text \<open>C8: The walk goes back in time over recorded events: it appends the rendering of hops that
  alternate between a waker and what that thread had waited on, each wake is of the futex of
  the wait above it, block I/O can only come last, and completion times never increase from
  the wait that started the walk downwards.\<close>

theorem walk_goes_back_in_time:
  assumes "cache_sound h dn"
  shows "\<exists>hs. snd (walk_from_futex_wait h w ty dn depth ls) = ls @ map (render_hop h) hs
    \<and> sorted_wrt (\<lambda>x y. timestamp_ns y \<le> timestamp_ns x) (w # map hop_event hs)
    \<and> alternates hs \<and> list_all (hop_from ty) hs
    \<and> (hs = [] \<or> (\<exists>k hs'. hs = Woken k # hs' \<and> key k = key w))"
proof -
  obtain hs dn' where hs: "walk_from_futex_wait h w ty dn depth ls = (dn', ls @ map (render_hop h) hs)"
    "causal_chain ty (unat MAX_CHAIN_DEPTH - unat depth) w hs" using walk_refines [OF assms] by blast
  from hs(1) chain_times [OF hs(2)] chain_alternates [OF hs(2)] chain_recorded [OF hs(2)] chain_head [OF hs(2)]
  show ?thesis by (intro exI [of _ hs] conjI) simp_all
qed

theorem walk_goes_back_in_time_witness:
  "\<exists>hs. snd (walk_from_futex_wait ex_host (ex_event 1010 910 0xABC 1 EVENT_FUTEX_WAIT)
       (typed_partition (events ex_trace)) dev_names_new 1 []) = map (render_hop ex_host) hs
     \<and> alternates hs"
  using walk_goes_back_in_time [OF cache_sound_new, of ex_host "ex_event 1010 910 0xABC 1 EVENT_FUTEX_WAIT"
      "typed_partition (events ex_trace)" 1 "[]"] by auto

text \<open>C21: Chains are short whatever the trace holds: every chain has its headline and at most
  fifteen lines below it.\<close>

theorem explain_lines_bounded:
  "list_all (\<lambda>ls. 1 \<le> length ls \<and> length ls \<le> 16) (explain h tf n)"
  using explain_chains [of h tf n] chain_of_length
  by (auto simp: list_all2_conv_all_nth list_all_length)

text \<open>C20: The device-name cache shared by the stalls cannot be seen: each chain is the one an
  empty cache would give.\<close>

theorem explain_cache_invisible:
  "explain h tf n =
     map (\<lambda>b. fst (explain_one_stall h b tf (typed_partition (events tf)) dev_names_new))
       (take (unat n) (sort_by longer_first (t_block (typed_partition (events tf)))))"
  by (simp add: explain_fresh slowest_stalls_def)

text \<open>C23: Colour adds nothing but escape sequences: the coloured report with its escape
  sequences stripped is the report of a run without colour, provided device names hold no
  escape character.\<close>

theorem colour_only_adds_escapes:
  assumes "\<forall>d. plain (fst (dev_name h dev_names_new d))"
  shows "map strip_ansi (print_chains (h_color h) (explain h tf n)) =
    print_chains False (explain (h\<lparr>h_color := False\<rparr>) tf n)"
proof -
  have "plain (dev_meaning h d)" for d using assms by (simp add: dev_meaning_def)
  from strip_one_stall [OF this] show ?thesis
    by (simp add: strip_print_chains explain_fresh comp_def monochrome_def)
qed

theorem colour_only_adds_escapes_witness:
  "map strip_ansi (print_chains True (explain ex_host ex_trace 3)) =
     print_chains False (explain (ex_host\<lparr>h_color := False\<rparr>) ex_trace 3)"
  using colour_only_adds_escapes [of ex_host ex_trace 3] ex_host_sound
  by (simp add: dev_meaning_def) (simp add: ex_host_def)

text \<open>C19: The order in which events were recorded does not matter: where no two events of one
  type share a time stamp and no two stalls a duration, every permutation of the trace gives
  the same chains.\<close>

theorem explain_ignores_order:
  assumes "mset evs = mset (events tf)"
    and "inj_on (\<lambda>e. (event_type e, timestamp_ns e)) (set (events tf))"
    and "inj_on duration_ns {e \<in> set (events tf). event_type e = EVENT_SCHED_BLOCK}"
  shows "explain h (tf\<lparr>events := evs\<rparr>) n = explain h tf n"
  using assms by (rule explain_cong)

theorem explain_ignores_order_witness:
  "explain ex_host (ex_trace\<lparr>events := rev (events ex_trace)\<rparr>) 2 = explain ex_host ex_trace 2"
  by (rule explain_ignores_order) (auto simp: ex_trace_def event_types inj_on_def)

text \<open>C22: Durations are printed in the unit that fits: below a second the number is the whole
  units elapsed, from a second on the two printed decimals are within 5.003 ms of the
  duration, over the whole range of \<open>u64\<close>.\<close>

theorem format_duration_accurate:
  "ns < 1000 \<and> format_duration ns = dec (unat ns) @ ''ns'' \<or>
   1000 \<le> ns \<and> ns < 1000000 \<and>
     (\<exists>q. format_duration ns = dec q @ micro_sign @ ''s'' \<and> q * 1000 \<le> unat ns \<and> unat ns < (q + 1) * 1000) \<or>
   1000000 \<le> ns \<and> ns < 1000000000 \<and>
     (\<exists>q. format_duration ns = dec q @ ''ms'' \<and> q * 1000000 \<le> unat ns \<and> unat ns < (q + 1) * 1000000) \<or>
   1000000000 \<le> ns \<and>
     (\<exists>q f. format_duration ns = dec q @ ''.'' @ pad_zero 2 (dec f) @ ''s'' \<and> f < 100 \<and>
        \<bar>int (q * 100 + f) * 10000000 - int (unat ns)\<bar> \<le> 5003000)"
proof -
  let ?h = "f64_hundredths (f64_div (f64_of_u64 (unat ns)) 1000000000)"
  have floor: "m div k * k \<le> m \<and> m < (m div k + 1) * k" if "0 < k" for m k :: nat
    using that by (simp add: dividend_less_div_times)
  have units: "unat (ns div 1000000) * 1000000 \<le> unat ns \<and> unat ns < (unat (ns div 1000000) + 1) * 1000000"
    "unat (ns div 1000) * 1000 \<le> unat ns \<and> unat ns < (unat (ns div 1000) + 1) * 1000"
    using floor [of 1000000 "unat ns"] floor [of 1000 "unat ns"] by (simp_all add: unat_div_distrib)
  have seconds: "\<bar>int (?h div 100 * 100 + ?h mod 100) * 10000000 - int (unat ns)\<bar> \<le> 5003000"
    if "1000000000 \<le> ns"
    using hundredths_error [of "unat ns"] that unsigned_less [of ns] by (simp add: word_le_nat_alt)
  consider "ns < 1000" | "1000 \<le> ns" "ns < 1000000" | "1000000 \<le> ns" "ns < 1000000000" | "1000000000 \<le> ns"
    by fastforce
  then show ?thesis
  proof cases
    case 1
    then have "\<not> 1000 \<le> ns" "\<not> 1000000 \<le> ns" "\<not> 1000000000 \<le> ns"
      by (simp_all add: word_le_nat_alt word_less_nat_alt)
    with 1 show ?thesis by (simp add: format_duration_def)
  next
    case 2
    then have "\<not> 1000000 \<le> ns" "\<not> 1000000000 \<le> ns" by (simp_all add: word_le_nat_alt word_less_nat_alt)
    with 2 units show ?thesis by (auto simp: format_duration_def)
  next
    case 3
    then have "\<not> 1000000000 \<le> ns" by (simp add: word_le_nat_alt word_less_nat_alt)
    with 3 units show ?thesis by (auto simp: format_duration_def)
  next
    case 4
    then have "format_duration ns = dec (?h div 100) @ ''.'' @ pad_zero 2 (dec (?h mod 100)) @ ''s''"
      by (simp add: format_duration_def fmt_fixed2_def Let_def)
    with 4 seconds [OF 4] show ?thesis by (metis mod_less_divisor zero_less_numeral)
  qed
qed

end
