(* ===== verification/System.thy ===== *)
theory System
  imports Trace_File
begin

text \<open>
  The machine around the command-line tool. Every call the tool makes to the operating
  system or to the \<open>aya\<close> library is logged, newest first; what it answers is a parameter,
  a function of the world so far, so any behaviour of the machine is some \<open>sys\<close>. A
  computation takes a world to an outcome and a world, or to \<^const>\<open>None\<close> when it never
  returns. Outcomes are a value, an \<open>anyhow\<close> error (its chain of messages, outermost
  first) or a panic.
\<close>

section \<open>Calls and worlds\<close>

datatype call =
    Geteuid
  | Println string
  | Eprintln string
  | Fork "string list"
  | Waitpid u32
  | Waitpid_nohang u32
  | Ptrace_detach u32
  | Kill0 u32
  | Setrlimit_memlock
  | Load_object
  | Load_program string
  | Attach_tracepoint string string
  | Set_target_map u32
  | Ring_item "u8 list"
  | Ring_empty
  | Poll
  | Clock_realtime
  | Clock_monotonic
  | Signal_sigint
  | Instant_now
  | Write_file string
  | Read_file string
  | Read_link string
  | Localtime_r i64
  | Init_color

text \<open>
  The state of the process: its calls so far, the files it can reach, the flag
  \<open>STOP_REQUESTED\<close>, and whether the colour decision \<open>ENABLED\<close> has been taken. \<open>Init_color\<close> is
  the closure that takes it, which looks up \<open>NO_COLOR\<close> and the terminal.
\<close>

record world =
  w_log :: "call list"
  w_files :: files
  w_stop :: bool
  w_enabled :: bool

definition logged :: "call \<Rightarrow> world \<Rightarrow> world" where
  "logged c w = w\<lparr>w_log := c # w_log w\<rparr>"

type_synonym err = "string list"

text \<open>
  Return codes and status words are \<open>i32\<close>; \<open>sy_errno\<close> is the text of \<open>last_os_error\<close>. The
  \<open>aya\<close> answers are an error chain, if any; \<open>sy_next\<close> is \<open>RingBuf::next\<close>.
\<close>

record sys =
  sy_geteuid :: "world \<Rightarrow> u32"
  sy_errno :: "world \<Rightarrow> string"
  sy_fork :: "world \<Rightarrow> string list \<Rightarrow> string + u32"
  sy_traceme :: "world \<Rightarrow> i32"
  sy_exec_error :: "world \<Rightarrow> string list \<Rightarrow> string option"
  sy_waitpid :: "world \<Rightarrow> u32 \<Rightarrow> i32 \<times> i32"
  sy_waitpid_nohang :: "world \<Rightarrow> u32 \<Rightarrow> i32"
  sy_detach :: "world \<Rightarrow> u32 \<Rightarrow> i32"
  sy_kill0 :: "world \<Rightarrow> u32 \<Rightarrow> i32"
  sy_load_object :: "world \<Rightarrow> err option"
  sy_has_program :: "world \<Rightarrow> string \<Rightarrow> bool"
  sy_not_tracepoint :: "world \<Rightarrow> string \<Rightarrow> err option"
  sy_load_program :: "world \<Rightarrow> string \<Rightarrow> err option"
  sy_attach :: "world \<Rightarrow> string \<Rightarrow> string \<Rightarrow> err option"
  sy_has_map :: "world \<Rightarrow> string \<Rightarrow> bool"
  sy_map_error :: "world \<Rightarrow> string \<Rightarrow> err option"
  sy_set_error :: "world \<Rightarrow> u32 \<Rightarrow> err option"
  sy_next :: "world \<Rightarrow> u8 list option"
  sy_realtime :: "world \<Rightarrow> timespec"
  sy_monotonic :: "world \<Rightarrow> timespec"
  sy_sigint :: "world \<Rightarrow> bool"
  sy_now :: "world \<Rightarrow> int"
  sy_files :: os_files
  sy_codec :: codec
  sy_overflow_checks :: bool

section \<open>Computations\<close>

datatype 'a outcome = Ret 'a | Fail err | Panic

type_synonym 'a comp = "world \<Rightarrow> ('a outcome \<times> world) option"

definition return :: "'a \<Rightarrow> 'a comp" where
  "return x w = Some (Ret x, w)"

definition fail :: "err \<Rightarrow> 'a comp" where
  "fail e w = Some (Fail e, w)"

text \<open>Sequencing with the \<open>?\<close> operator.\<close>

definition and_then :: "'a comp \<Rightarrow> ('a \<Rightarrow> 'b comp) \<Rightarrow> 'b comp" where
  "and_then m f w =
     (case m w of
        None \<Rightarrow> None
      | Some (Ret x, w') \<Rightarrow> f x w'
      | Some (Fail e, w') \<Rightarrow> Some (Fail e, w')
      | Some (Panic, w') \<Rightarrow> Some (Panic, w'))"

definition call :: "call \<Rightarrow> unit comp" where
  "call c w = Some (Ret (), logged c w)"

definition with_context :: "string \<Rightarrow> 'a comp \<Rightarrow> 'a comp" where
  "with_context msg m w =
     (case m w of
        Some (Fail e, w') \<Rightarrow> Some (Fail (msg # e), w')
      | r \<Rightarrow> r)"

text \<open>An answer that is an error, if any.\<close>

definition check :: "(world \<Rightarrow> err option) \<Rightarrow> unit comp" where
  "check f w = (case f w of None \<Rightarrow> Some (Ret (), w) | Some e \<Rightarrow> Some (Fail e, w))"

definition ok_or :: "(world \<Rightarrow> bool) \<Rightarrow> err \<Rightarrow> unit comp" where
  "ok_or b e w = (if b w then Some (Ret (), w) else Some (Fail e, w))"

definition println :: "string \<Rightarrow> unit comp" where
  "println s = call (Println s)"

fun println_all :: "string list \<Rightarrow> unit comp" where
  "println_all [] = return ()"
| "println_all (l # ls) = and_then (println l) (\<lambda>_. println_all ls)"

section \<open>Lemmas\<close>

lemma logged_sel [simp]:
  "w_log (logged c w) = c # w_log w" "w_files (logged c w) = w_files w" "w_stop (logged c w) = w_stop w"
  "w_enabled (logged c w) = w_enabled w"
  by (simp_all add: logged_def)

lemma and_then_Ret:
  "and_then m f w = Some (Ret y, w'') \<longleftrightarrow>
     (\<exists>x w'. m w = Some (Ret x, w') \<and> f x w' = Some (Ret y, w''))"
  by (auto simp: and_then_def split: option.splits outcome.splits)

lemma and_then_cases:
  assumes "and_then m f w = Some (r, w'')"
  obtains (more) x w' where "m w = Some (Ret x, w')" "f x w' = Some (r, w'')"
  | (fail) e where "m w = Some (Fail e, w'')" "r = Fail e"
  | (panic) "m w = Some (Panic, w'')" "r = Panic"
  using assms by (auto simp: and_then_def split: option.splits outcome.splits)

lemma return_eq [simp]: "return x w = Some (r, w') \<longleftrightarrow> r = Ret x \<and> w' = w"
  by (auto simp: return_def)

lemma fail_eq [simp]: "fail e w = Some (r, w') \<longleftrightarrow> r = Fail e \<and> w' = w"
  by (auto simp: fail_def)

lemma call_eq [simp]: "call c w = Some (r, w') \<longleftrightarrow> r = Ret () \<and> w' = logged c w"
  by (auto simp: call_def)

lemma check_Ret [simp]: "check f w = Some (Ret u, w') \<longleftrightarrow> f w = None \<and> w' = w"
  by (auto simp: check_def split: option.splits)

lemma ok_or_Ret [simp]: "ok_or b e w = Some (Ret u, w') \<longleftrightarrow> b w \<and> w' = w"
  by (auto simp: ok_or_def)

lemma with_context_Ret [simp]: "with_context s m w = Some (Ret x, w') \<longleftrightarrow> m w = Some (Ret x, w')"
  by (auto simp: with_context_def split: option.splits outcome.splits)

text \<open>
  What a computation adds to the log and leaves in place: \<open>only C m\<close> says that all calls
  it makes are in \<open>C\<close> and that files stay as they are.
\<close>

definition adds :: "(call \<Rightarrow> bool) \<Rightarrow> world \<Rightarrow> world \<Rightarrow> bool" where
  "adds C w w' \<longleftrightarrow> (\<exists>new. w_log w' = new @ w_log w \<and> list_all C new) \<and> w_files w' = w_files w"

definition only :: "(call \<Rightarrow> bool) \<Rightarrow> 'a comp \<Rightarrow> bool" where
  "only C m \<longleftrightarrow> (\<forall>w r w'. m w = Some (r, w') \<longrightarrow> adds C w w')"

named_theorems only_intros \<open>how computations are built from ones that make only some calls\<close>

lemma adds_refl [simp]: "adds C w w"
  by (simp add: adds_def)

lemma adds_logged [simp]: "C c \<Longrightarrow> adds C w (logged c w)"
  by (simp add: adds_def)

lemma adds_trans: "adds C w w' \<Longrightarrow> adds C w' w'' \<Longrightarrow> adds C w w''"
  unfolding adds_def by (metis append.assoc list_all_append)

lemma adds_step: "C c \<Longrightarrow> adds C (logged c w) w' \<Longrightarrow> adds C w w'"
  by (rule adds_trans [of C w "logged c w"]) simp_all

lemma adds_mono: "adds C w w' \<Longrightarrow> (\<And>c. C c \<Longrightarrow> D c) \<Longrightarrow> adds D w w'"
  unfolding adds_def by (metis list_all_iff)

lemma onlyD: "only C m \<Longrightarrow> m w = Some (r, w') \<Longrightarrow> adds C w w'"
  by (simp add: only_def)

lemma only_return [only_intros]: "only C (return x)"
  by (simp add: only_def)

lemma only_fail [only_intros]: "only C (fail e)"
  by (simp add: only_def)

lemma only_call [only_intros]: "C c \<Longrightarrow> only C (call c)"
  by (simp add: only_def)

lemma only_check [only_intros]: "only C (check f)"
  by (auto simp: only_def check_def split: option.splits)

lemma only_ok_or [only_intros]: "only C (ok_or b e)"
  by (auto simp: only_def ok_or_def split: if_splits)

lemma only_with_context [only_intros]: "only C m \<Longrightarrow> only C (with_context s m)"
  unfolding only_def with_context_def by (fastforce split: option.splits outcome.splits)

lemma only_and_then [only_intros]:
  assumes m: "only C m" and f: "\<And>x. only C (f x)"
  shows "only C (and_then m f)"
  unfolding only_def
proof (intro allI impI)
  fix w r w''
  assume "and_then m f w = Some (r, w'')"
  then show "adds C w w''"
    by (cases rule: and_then_cases) (use onlyD [OF m] onlyD [OF f] adds_trans in blast)+
qed

lemma only_if [only_intros]: "only C m \<Longrightarrow> only C m' \<Longrightarrow> only C (if b then m else m')"
  by simp

lemma only_println_all [only_intros]: "(\<And>s. C (Println s)) \<Longrightarrow> only C (println_all ls)"
  by (induction ls) (auto simp: println_def intro!: only_intros)

lemma only_mono: "only C m \<Longrightarrow> (\<And>c. C c \<Longrightarrow> D c) \<Longrightarrow> only D m"
  unfolding only_def by (blast intro: adds_mono)

section \<open>An example machine\<close>

definition ex_files :: os_files where
  "ex_files = \<lparr>create_error = (\<lambda>p. None), open_error = (\<lambda>p. None), enoent = ''No such file''\<rparr>"

definition ex_world :: world where
  "ex_world = \<lparr>w_log = [], w_files = Map.empty, w_stop = False, w_enabled = False\<rparr>"

text \<open>Root runs a child with pid 7 that stops as it should and has exited when first asked.\<close>

definition ex_trace_file :: trace_file where
  "ex_trace_file = \<lparr>realtime_anchor_ns = 10000000000, monotonic_anchor_ns = 10000000000, events = []\<rparr>"

definition ex_codec :: codec where
  "ex_codec = \<lparr>to_writer_pretty = (\<lambda>tf. (''{}'', if tf = ex_trace_file then None else Some ''unsupported'')),
     from_reader = (\<lambda>s. Inr ex_trace_file)\<rparr>"

definition ex_sys :: sys where
  "ex_sys = \<lparr>sy_geteuid = (\<lambda>w. 0), sy_errno = (\<lambda>w. ''error''), sy_fork = (\<lambda>w a. Inr 7), sy_traceme = (\<lambda>w. 0),
     sy_exec_error = (\<lambda>w a. None), sy_waitpid = (\<lambda>w p. (7, 0x57F)), sy_waitpid_nohang = (\<lambda>w p. 7),
     sy_detach = (\<lambda>w p. 0), sy_kill0 = (\<lambda>w p. 0), sy_load_object = (\<lambda>w. None),
     sy_has_program = (\<lambda>w n. True), sy_not_tracepoint = (\<lambda>w n. None), sy_load_program = (\<lambda>w n. None),
     sy_attach = (\<lambda>w c n. None), sy_has_map = (\<lambda>w n. True), sy_map_error = (\<lambda>w n. None),
     sy_set_error = (\<lambda>w t. None), sy_next = (\<lambda>w. None),
     sy_realtime = (\<lambda>w. \<lparr>tv_sec = 10, tv_nsec = 0\<rparr>), sy_monotonic = (\<lambda>w. \<lparr>tv_sec = 10, tv_nsec = 0\<rparr>),
     sy_sigint = (\<lambda>w. False), sy_now = (\<lambda>w. 0), sy_files = ex_files, sy_codec = ex_codec,
     sy_overflow_checks = False\<rparr>"

end
