(* ===== verification/Loader.thy ===== *)
theory Loader
  imports System "HOL-Library.Sublist"
begin

text \<open>
  Loading the programs and draining the ring buffer (\<open>whyslow-cli/src/bpf.rs\<close>). The ring's
  contract is the locale \<open>fifo_ring\<close>: what was submitted comes out in order and nothing is
  taken twice. Under it the drain loop returns every record submitted before it stopped,
  and it does stop once its condition holds and the ring is bounded.
\<close>

section \<open>Loading\<close>

definition TRACEPOINTS :: "(string \<times> string \<times> string) list" where
  "TRACEPOINTS =
     [(''sched_switch'', ''sched'', ''sched_switch''),
      (''futex_enter'', ''syscalls'', ''sys_enter_futex''),
      (''futex_exit'', ''syscalls'', ''sys_exit_futex''),
      (''block_rq_issue'', ''block'', ''block_rq_issue''),
      (''block_rq_complete'', ''block'', ''block_rq_complete'')]"

text \<open>The result of \<open>setrlimit\<close> is not looked at.\<close>

definition bump_memlock_rlimit :: "unit comp" where
  "bump_memlock_rlimit = call Setrlimit_memlock"

definition quoted :: "string \<Rightarrow> string" where
  "quoted s = [CHR 0x60] @ s @ [CHR 0x60]"

definition attach_program :: "sys \<Rightarrow> string \<times> string \<times> string \<Rightarrow> unit comp" where
  "attach_program sy t = (case t of (prog_name, category, tp_name) \<Rightarrow>
     and_then (ok_or (\<lambda>w. sy_has_program sy w prog_name)
       [''BPF program '' @ quoted prog_name @ '' missing from object'']) (\<lambda>_.
     and_then (check (\<lambda>w. sy_not_tracepoint sy w prog_name)) (\<lambda>_.
     and_then (with_context (''loading BPF program '' @ quoted prog_name)
       (and_then (check (\<lambda>w. sy_load_program sy w prog_name)) (\<lambda>_. call (Load_program prog_name)))) (\<lambda>_.
     with_context (''attaching to tracepoint '' @ category @ '':'' @ tp_name)
       (and_then (check (\<lambda>w. sy_attach sy w category tp_name)) (\<lambda>_.
        call (Attach_tracepoint category tp_name)))))))"

fun attach_all :: "sys \<Rightarrow> (string \<times> string \<times> string) list \<Rightarrow> unit comp" where
  "attach_all sy [] = return ()"
| "attach_all sy (t # ts) = and_then (attach_program sy t) (\<lambda>_. attach_all sy ts)"

definition load_and_attach :: "sys \<Rightarrow> unit comp" where
  "load_and_attach sy =
     and_then bump_memlock_rlimit (\<lambda>_.
     and_then (with_context ''loading whyslow-ebpf object''
       (and_then (check (sy_load_object sy)) (\<lambda>_. call Load_object))) (\<lambda>_.
     attach_all sy TRACEPOINTS))"

text \<open>\<open>map_mut\<close> followed by the typed view of the map.\<close>

definition open_map :: "sys \<Rightarrow> string \<Rightarrow> unit comp" where
  "open_map sy name =
     and_then (ok_or (\<lambda>w. sy_has_map sy w name) [name @ '' map missing from object'']) (\<lambda>_.
     check (\<lambda>w. sy_map_error sy w name))"

definition set_target_tgid :: "sys \<Rightarrow> u32 \<Rightarrow> unit comp" where
  "set_target_tgid sy tgid =
     and_then (open_map sy ''TARGET_TGID'') (\<lambda>_.
     and_then (check (\<lambda>w. sy_set_error sy w tgid)) (\<lambda>_.
     call (Set_target_map tgid)))"

section \<open>Draining\<close>

definition decode_event :: "u8 list \<Rightarrow> event option" where
  "decode_event item =
     (if length item \<noteq> size_of event_fields then None else Some (event_of_bytes item))"

definition push_item :: "trace_event list \<Rightarrow> u8 list \<Rightarrow> trace_event list" where
  "push_item evs item =
     (case decode_event item of None \<Rightarrow> evs | Some ev \<Rightarrow> evs @ [trace_event_from ev])"

text \<open>The inner loop: \<open>while let Some(item) = ring.next()\<close>.\<close>

partial_function (option) drain_items ::
  "sys \<Rightarrow> trace_event list \<Rightarrow> world \<Rightarrow> (trace_event list \<times> world) option" where
  "drain_items sy evs w =
     (case sy_next sy w of
        None \<Rightarrow> Some (evs, logged Ring_empty w)
      | Some item \<Rightarrow> drain_items sy (push_item evs item) (logged (Ring_item item) w))"

partial_function (option) drain_loop ::
  "sys \<Rightarrow> (world \<Rightarrow> bool \<times> world) \<Rightarrow> trace_event list \<Rightarrow> world \<Rightarrow> (trace_event list \<times> world) option" where
  "drain_loop sy should_stop evs w =
     Option.bind (drain_items sy evs w) (\<lambda>(evs, w).
       (case should_stop w of (stop, w) \<Rightarrow>
          if stop then drain_items sy evs w
          else drain_loop sy should_stop evs (logged Poll w)))"

definition drain_ring_buffer :: "sys \<Rightarrow> (world \<Rightarrow> bool \<times> world) \<Rightarrow> trace_event list comp" where
  "drain_ring_buffer sy should_stop =
     and_then (open_map sy ''EVENTS'') (\<lambda>_ w.
       map_option (\<lambda>(evs, w). (Ret evs, w)) (drain_loop sy should_stop [] w))"

lemmas drain_items_induct = drain_items.raw_induct [rotated, consumes 1, case_names step]
lemmas drain_loop_induct = drain_loop.raw_induct [rotated, consumes 1, case_names step]

section \<open>What the log says about the ring\<close>

fun popped :: "call list \<Rightarrow> u8 list list" where
  "popped [] = []"
| "popped (Ring_item r # cs) = popped cs @ [r]"
| "popped (c # cs) = popped cs"

definition decoded :: "u8 list list \<Rightarrow> trace_event list" where
  "decoded items = foldl push_item [] items"

lemma decoded_simps [simp]:
  "decoded [] = []" "decoded (xs @ [x]) = push_item (decoded xs) x"
  by (simp_all add: decoded_def)

lemma decoded_filter:
  "decoded items =
     map (\<lambda>i. trace_event_from (event_of_bytes i)) (filter (\<lambda>i. length i = size_of event_fields) items)"
  by (induction items rule: rev_induct) (auto simp: push_item_def decode_event_def)

text \<open>The drained events are those of the records taken from the ring, in order.\<close>

lemma drain_items_popped:
  assumes "drain_items sy evs w = Some (evs', w')" and "evs = decoded (popped (w_log w))"
  shows "evs' = decoded (popped (w_log w')) \<and> (\<exists>v. w' = logged Ring_empty v \<and> sy_next sy v = None)"
  using assms
proof (induction sy evs w "(evs', w')" arbitrary: evs' w' rule: drain_items_induct)
  case (step rec sy evs w)
  show ?case
  proof (cases "sy_next sy w")
    case None
    then show ?thesis using step(2,3) by auto
  next
    case (Some item)
    then have "rec sy (push_item evs item) (logged (Ring_item item) w) = Some (evs', w')"
      using step(2) by simp
    from step(1) [OF this] step(3) show ?thesis by simp
  qed
qed

lemma adds_drain_items:
  assumes "drain_items sy evs w = Some (evs', w')" and "\<And>r. C (Ring_item r)" and "C Ring_empty"
  shows "adds C w w'"
  using assms
proof (induction sy evs w "(evs', w')" arbitrary: evs' w' rule: drain_items_induct)
  case (step rec sy evs w)
  show ?case
  proof (cases "sy_next sy w")
    case None
    then show ?thesis using step by auto
  next
    case (Some r)
    then have "rec sy (push_item evs r) (logged (Ring_item r) w) = Some (evs', w')" using step(2) by simp
    from step(1) [OF this step(3,4)] show ?thesis
      using adds_step [of C "Ring_item r" w w'] step(3) by blast
  qed
qed

text \<open>Calls that touch neither the maps nor the poll count.\<close>

fun quiet :: "call \<Rightarrow> bool" where
  "quiet (Ring_item r) = False"
| "quiet (Set_target_map t) = False"
| "quiet Poll = False"
| "quiet c = True"

definition quiet_stop :: "(world \<Rightarrow> bool \<times> world) \<Rightarrow> bool" where
  "quiet_stop ss \<longleftrightarrow> (\<forall>w. \<exists>new. w_log (snd (ss w)) = new @ w_log w \<and> list_all quiet new)"

lemma popped_quiet: "list_all quiet new \<Longrightarrow> popped (new @ cs) = popped cs"
proof (induction new)
  case (Cons c new)
  then show ?case by (cases c) auto
qed simp

definition polls :: "call list \<Rightarrow> nat" where
  "polls cs = length (filter (\<lambda>c. c = Poll) cs)"

lemma polls_quiet: "list_all quiet new \<Longrightarrow> polls (new @ cs) = polls cs"
proof (induction new)
  case (Cons c new)
  then show ?case by (cases c) (auto simp: polls_def)
qed simp

lemma polls_simps [simp]: "polls (Poll # cs) = Suc (polls cs)" "c \<noteq> Poll \<Longrightarrow> polls (c # cs) = polls cs"
  by (simp_all add: polls_def)

lemma suffix_adds: "adds C w w' \<Longrightarrow> suffix (w_log w) (w_log w')"
  by (auto simp: adds_def suffix_def)

lemma suffix_drain_items: "drain_items sy evs w = Some (evs', w') \<Longrightarrow> suffix (w_log w) (w_log w')"
  using adds_drain_items [where C = "\<lambda>_. True"] suffix_adds by blast

lemma drain_items_polls:
  assumes "drain_items sy evs w = Some (evs', w')"
  shows "polls (w_log w') = polls (w_log w)"
  using assms
proof (induction sy evs w "(evs', w')" arbitrary: evs' w' rule: drain_items_induct)
  case (step rec sy evs w)
  show ?case
  proof (cases "sy_next sy w")
    case None
    then show ?thesis using step(2) by auto
  next
    case (Some item)
    then show ?thesis using step by fastforce
  qed
qed

lemma drain_loop_popped:
  assumes "drain_loop sy ss evs w = Some (evs', w')" and "evs = decoded (popped (w_log w))"
    and "quiet_stop ss"
  shows "evs' = decoded (popped (w_log w'))"
  using assms
proof (induction sy ss evs w "(evs', w')" arbitrary: evs' w' rule: drain_loop_induct)
  case (step rec sy ss evs w)
  from step(2) obtain evs1 w1 where one: "drain_items sy evs w = Some (evs1, w1)"
    by (auto simp: bind_eq_Some_conv)
  obtain stop w2 where ss: "ss w1 = (stop, w2)" by fastforce
  obtain new where "w_log w2 = new @ w_log w1" "list_all quiet new"
    using step(4) ss unfolding quiet_stop_def by (metis snd_conv)
  moreover have "evs1 = decoded (popped (w_log w1))" using drain_items_popped [OF one step(3)] by blast
  ultimately have evs1: "evs1 = decoded (popped (w_log w2))" by (simp add: popped_quiet)
  show ?case
  proof (cases stop)
    case True
    then have "drain_items sy evs1 w2 = Some (evs', w')" using step(2) one ss by simp
    then show ?thesis using drain_items_popped [OF _ evs1] by blast
  next
    case False
    then have "rec sy ss evs1 (logged Poll w2) = Some (evs', w')" using step(2) one ss by simp
    from step(1) [OF this _ step(4)] evs1 show ?thesis by simp
  qed
qed

section \<open>The contract of the ring\<close>

text \<open>
  \<open>arrived cs\<close> is everything submitted to the ring by the time the calls \<open>cs\<close> have been
  made. Records come out in the order they were submitted, each once; more may be
  submitted at any time. \<open>valid cs\<close> says that the records in \<open>cs\<close> came from this ring.
\<close>

locale fifo_ring =
  fixes nxt :: "call list \<Rightarrow> u8 list option" and arrived :: "call list \<Rightarrow> u8 list list"
    and valid :: "call list \<Rightarrow> bool"
  assumes next_item: "nxt cs = Some r \<Longrightarrow> \<exists>later. arrived cs = popped cs @ r # later"
    and next_empty: "nxt cs = None \<Longrightarrow> arrived cs = popped cs"
    and arrive_pop: "nxt cs = Some r \<Longrightarrow> prefix (arrived cs) (arrived (Ring_item r # cs))"
    and arrive_other: "\<forall>r. c \<noteq> Ring_item r \<Longrightarrow> prefix (arrived cs) (arrived (c # cs))"
    and valid_pop: "valid cs \<Longrightarrow> nxt cs = Some r \<Longrightarrow> valid (Ring_item r # cs)"
    and valid_other: "valid cs \<Longrightarrow> \<forall>r. c \<noteq> Ring_item r \<Longrightarrow> valid (c # cs)"
begin

lemma valid_quiet: "list_all quiet new \<Longrightarrow> valid cs \<Longrightarrow> valid (new @ cs)"
  by (induction new) (auto intro!: valid_other)

lemma arrived_quiet: "list_all quiet new \<Longrightarrow> prefix (arrived cs) (arrived (new @ cs))"
proof (induction new)
  case (Cons c new)
  then have "prefix (arrived (new @ cs)) (arrived (c # new @ cs))" by (intro arrive_other) auto
  with Cons show ?case by (auto intro: prefix_order.trans)
qed simp

text \<open>A drain of the inner loop leaves nothing behind.\<close>

lemma drain_items_all:
  assumes "drain_items sy evs w = Some (evs', w')" and "\<forall>w. sy_next sy w = nxt (w_log w)"
  shows "\<exists>v. w_log w' = Ring_empty # v \<and> arrived v = popped v \<and> prefix (arrived (w_log w)) (arrived v)"
  using assms
proof (induction sy evs w "(evs', w')" arbitrary: evs' w' rule: drain_items_induct)
  case (step rec sy evs w)
  show ?case
  proof (cases "sy_next sy w")
    case None
    then show ?thesis using step(2,3) next_empty by auto
  next
    case (Some item)
    then have "rec sy (push_item evs item) (logged (Ring_item item) w) = Some (evs', w')"
      using step(2) by simp
    from step(1) [OF this step(3)] arrive_pop [of "w_log w" item] Some step(3) show ?thesis
      by (auto intro: prefix_order.trans)
  qed
qed

text \<open>
  When the loop returns, the condition held at some point \<open>u\<close> of it, and the result decodes
  everything submitted up to \<open>u\<close>, and more in the end.
\<close>

lemma drain_loop_stops:
  assumes "drain_loop sy ss evs w = Some (evs', w')" and "quiet_stop ss"
    and "\<forall>w. sy_next sy w = nxt (w_log w)"
  shows "\<exists>u v. fst (ss u) \<and> prefix (arrived (w_log u)) (popped v) \<and> w_log w' = Ring_empty # v
    \<and> suffix (w_log w) (w_log u) \<and> suffix (w_log (snd (ss u))) (w_log w')"
  using assms
proof (induction sy ss evs w "(evs', w')" arbitrary: evs' w' rule: drain_loop_induct)
  case (step rec sy ss evs w)
  from step(2) obtain evs1 w1 where one: "drain_items sy evs w = Some (evs1, w1)"
    by (auto simp: bind_eq_Some_conv)
  obtain stop w2 where ss: "ss w1 = (stop, w2)" by fastforce
  obtain new where new: "w_log w2 = new @ w_log w1" "list_all quiet new"
    using step(3) ss unfolding quiet_stop_def by (metis snd_conv)
  show ?case
  proof (cases stop)
    case True
    then have last: "drain_items sy evs1 w2 = Some (evs', w')" using step(2) one ss by simp
    from drain_items_all [OF this step(4)] obtain v where
      v: "w_log w' = Ring_empty # v" "arrived v = popped v" "prefix (arrived (w_log w2)) (popped v)" by auto
    have "prefix (arrived (w_log w1)) (popped v)"
      using arrived_quiet [OF new(2), of "w_log w1"] v(3) new(1) prefix_order.trans by metis
    moreover have "suffix (w_log w) (w_log w1)" "suffix (w_log w2) (w_log w')"
      using suffix_drain_items one last by blast+
    ultimately show ?thesis using v(1) ss True by (intro exI [of _ w1] exI [of _ v]) simp
  next
    case False
    then have "rec sy ss evs1 (logged Poll w2) = Some (evs', w')" using step(2) one ss by simp
    moreover have "suffix (w_log w) (w_log (logged Poll w2))"
      using suffix_drain_items [OF one] new(1) by (simp add: suffix_appendI suffix_ConsI)
    ultimately show ?thesis using step(1) [OF _ step(3,4)] by (blast intro: suffix_order.trans)
  qed
qed

lemma drain_loop_all:
  assumes "drain_loop sy ss [] w = Some (evs, w')" and "quiet_stop ss"
    and "popped (w_log w) = []" and "\<forall>w. sy_next sy w = nxt (w_log w)"
  shows "\<exists>u v. fst (ss u) \<and> prefix (arrived (w_log u)) (popped v) \<and> w_log w' = Ring_empty # v
    \<and> suffix (w_log w) (w_log u) \<and> suffix (w_log (snd (ss u))) (w_log w') \<and> evs = decoded (popped v)"
proof -
  have "evs = decoded (popped (w_log w'))" using drain_loop_popped [OF assms(1) _ assms(2)] assms(3) by simp
  then show ?thesis using drain_loop_stops [OF assms(1,2,4)] by auto
qed

text \<open>A bounded ring is drained in finitely many steps.\<close>

lemma popped_le_arrived: "length (popped cs) \<le> length (arrived cs)"
  using next_item [of cs] next_empty [of cs] by (cases "nxt cs") auto

lemma drain_items_returns:
  assumes "\<forall>w. sy_next sy w = nxt (w_log w)" and "\<forall>cs. valid cs \<longrightarrow> length (arrived cs) \<le> N"
    and "valid (w_log w)"
  shows "\<exists>evs' w'. drain_items sy evs w = Some (evs', w') \<and> valid (w_log w')"
  using assms(3)
proof (induction "N - length (popped (w_log w))" arbitrary: evs w rule: less_induct)
  case less
  show ?case
  proof (cases "nxt (w_log w)")
    case None
    then show ?thesis using assms(1) less.prems by (simp add: drain_items.simps valid_other)
  next
    case (Some r)
    let ?w = "logged (Ring_item r) w"
    have valid: "valid (w_log ?w)" using valid_pop [OF less.prems Some] by simp
    then have "length (popped (w_log ?w)) \<le> N"
      using popped_le_arrived [of "w_log ?w"] assms(2) order_trans by blast
    then have "\<exists>evs' w'. drain_items sy (push_item evs r) ?w = Some (evs', w') \<and> valid (w_log w')"
      by (intro less.hyps valid) simp
    then show ?thesis using Some assms(1) by (simp add: drain_items.simps [of sy evs w])
  qed
qed

lemma drain_loop_returns:
  assumes "\<forall>w. sy_next sy w = nxt (w_log w)" and "\<forall>cs. valid cs \<longrightarrow> length (arrived cs) \<le> N"
    and "quiet_stop ss" and "\<forall>w. M \<le> polls (w_log w) \<longrightarrow> fst (ss w)" and "valid (w_log w)"
  shows "\<exists>evs' w'. drain_loop sy ss evs w = Some (evs', w')"
  using assms(5)
proof (induction "M - polls (w_log w)" arbitrary: evs w rule: less_induct)
  case less
  obtain evs1 w1 where one: "drain_items sy evs w = Some (evs1, w1)" "valid (w_log w1)"
    using drain_items_returns [OF assms(1,2) less.prems] by blast
  obtain stop w2 where ss: "ss w1 = (stop, w2)" by fastforce
  obtain new where new: "w_log w2 = new @ w_log w1" "list_all quiet new"
    using assms(3) ss unfolding quiet_stop_def by (metis snd_conv)
  have valid: "valid (w_log w2)" using new one(2) valid_quiet by simp
  have polls: "polls (w_log w2) = polls (w_log w)"
    using new polls_quiet drain_items_polls [OF one(1)] by metis
  note unfold = drain_loop.simps [of sy ss evs w]
  show ?case
  proof (cases stop)
    case True
    then show ?thesis
      using unfold one ss drain_items_returns [OF assms(1,2) valid, of evs1] by auto
  next
    case False
    then have "\<not> M \<le> polls (w_log w1)" using assms(4) ss by (metis fst_conv)
    then have "M - polls (w_log (logged Poll w2)) < M - polls (w_log w)"
      using polls drain_items_polls [OF one(1)] by simp
    from less.hyps [OF this, of evs1] show ?thesis
      using unfold one ss False valid valid_other [of "w_log w2" Poll] by simp
  qed
qed

end

section \<open>Lemmas on loading\<close>

definition attach_calls :: "string \<times> string \<times> string \<Rightarrow> call list" where
  "attach_calls t = (case t of (p, c, n) \<Rightarrow> [Load_program p, Attach_tracepoint c n])"

lemma attach_program_Ret:
  "attach_program sy t w = Some (Ret u, w') \<Longrightarrow>
   w_log w' = rev (attach_calls t) @ w_log w \<and> w_files w' = w_files w \<and> w_stop w' = w_stop w"
  by (auto simp: attach_program_def attach_calls_def and_then_Ret split: prod.splits)

lemma attach_all_Ret:
  "attach_all sy ts w = Some (Ret u, w') \<Longrightarrow>
   w_log w' = rev (concat (map attach_calls ts)) @ w_log w \<and> w_files w' = w_files w \<and> w_stop w' = w_stop w"
proof (induction ts arbitrary: w)
  case (Cons t ts)
  then show ?case by (fastforce simp: and_then_Ret dest: attach_program_Ret)
qed simp

lemma load_and_attach_Ret:
  "load_and_attach sy w = Some (Ret u, w') \<Longrightarrow>
   w_log w' = rev ([Setrlimit_memlock, Load_object] @ concat (map attach_calls TRACEPOINTS)) @ w_log w
   \<and> w_files w' = w_files w \<and> w_stop w' = w_stop w"
  by (auto simp: load_and_attach_def bump_memlock_rlimit_def and_then_Ret dest!: attach_all_Ret)

lemma open_map_Ret [simp]:
  "open_map sy name w = Some (Ret u, w') \<longleftrightarrow> sy_has_map sy w name \<and> sy_map_error sy w name = None \<and> w' = w"
  by (auto simp: open_map_def and_then_Ret split: if_splits)

lemma set_target_tgid_Ret:
  "set_target_tgid sy t w = Some (Ret u, w') \<Longrightarrow> w' = logged (Set_target_map t) w"
  by (auto simp: set_target_tgid_def and_then_Ret)

lemma only_attach_program [only_intros]:
  assumes "\<And>p. C (Load_program p)" "\<And>c n. C (Attach_tracepoint c n)"
  shows "only C (attach_program sy t)"
  unfolding attach_program_def by (cases t) (auto intro!: only_intros assms)

lemma only_attach_all [only_intros]:
  assumes "\<And>p. C (Load_program p)" "\<And>c n. C (Attach_tracepoint c n)"
  shows "only C (attach_all sy ts)"
  by (induction ts) (auto intro!: only_intros assms)

lemma only_load_and_attach [only_intros]:
  assumes "C Setrlimit_memlock" "C Load_object" "\<And>p. C (Load_program p)" "\<And>c n. C (Attach_tracepoint c n)"
  shows "only C (load_and_attach sy)"
  unfolding load_and_attach_def bump_memlock_rlimit_def by (auto intro!: only_intros assms)

lemma only_set_target_tgid [only_intros]: "C (Set_target_map t) \<Longrightarrow> only C (set_target_tgid sy t)"
  unfolding set_target_tgid_def open_map_def by (auto intro!: only_intros)

text \<open>A drain makes only its own calls and those of its stop condition.\<close>

lemma adds_drain_loop:
  assumes "drain_loop sy ss evs w = Some (evs', w')"
    and "\<And>w. adds C w (snd (ss w))" and "\<And>r. C (Ring_item r)" "C Ring_empty" "C Poll"
  shows "adds C w w'"
  using assms
proof (induction sy ss evs w "(evs', w')" arbitrary: evs' w' rule: drain_loop_induct)
  case (step rec sy ss evs w)
  from step(2) obtain evs1 w1 where one: "drain_items sy evs w = Some (evs1, w1)"
    by (auto simp: bind_eq_Some_conv)
  obtain stop w2 where ss: "ss w1 = (stop, w2)" by fastforce
  have w2: "adds C w w2"
    using adds_drain_items [OF one step(4,5)] step(3) [of w1] ss by (auto intro: adds_trans)
  show ?case
  proof (cases stop)
    case True
    then have "drain_items sy evs1 w2 = Some (evs', w')" using step(2) one ss by simp
    then show ?thesis using adds_drain_items step(4,5) w2 adds_trans by blast
  next
    case False
    then have "rec sy ss evs1 (logged Poll w2) = Some (evs', w')" using step(2) one ss by simp
    from step(1) [OF this step(3-6)] have "adds C w2 w'"
      using adds_step [of C Poll w2 w'] step(6) by blast
    then show ?thesis using w2 adds_trans by blast
  qed
qed

lemma only_drain_ring_buffer:
  assumes "\<And>w. adds C w (snd (ss w))" and "\<And>r. C (Ring_item r)" "C Ring_empty" "C Poll"
  shows "only C (drain_ring_buffer sy ss)"
proof -
  have "only C (\<lambda>w. map_option (\<lambda>(evs, w). (Ret evs, w)) (drain_loop sy ss [] w))"
    unfolding only_def using adds_drain_loop [OF _ assms] by auto
  then show ?thesis unfolding drain_ring_buffer_def open_map_def by (intro only_intros)
qed

end
