(* ===== verification/Child.thy ===== *)
theory Child
  imports System
begin

text \<open>
  The traced child (\<open>whyslow-cli/src/child.rs\<close>): spawning it stopped at its first
  instruction, waiting for that stop, letting it go and asking whether it has exited.
\<close>

unbundle bit_operations_syntax

section \<open>Operations\<close>

fun join :: "string \<Rightarrow> string list \<Rightarrow> string" where
  "join sep [] = []"
| "join sep [x] = x"
| "join sep (x # y # ys) = x @ sep @ join sep (y # ys)"

text \<open>The closure that runs in the forked child before \<open>execve\<close>.\<close>

definition pre_exec :: "i32 \<Rightarrow> string \<Rightarrow> string + unit" where
  "pre_exec ptrace_ret errno = (if ptrace_ret \<noteq> 0 then Inl errno else Inr ())"

text \<open>\<open>Command::spawn\<close>: fork, the closure and \<open>execve\<close>; a failure of any is its error.\<close>

definition command_spawn :: "sys \<Rightarrow> string list \<Rightarrow> u32 comp" where
  "command_spawn sy argv w =
     (let w' = logged (Fork argv) w in
      case sy_fork sy w argv of
        Inl e \<Rightarrow> Some (Fail [e], w')
      | Inr cpid \<Rightarrow>
          (case pre_exec (sy_traceme sy w') (sy_errno sy w') of
             Inl e \<Rightarrow> Some (Fail [e], w')
           | Inr _ \<Rightarrow>
               (case sy_exec_error sy w' argv of
                  Some e \<Rightarrow> Some (Fail [e], w')
                | None \<Rightarrow> Some (Ret cpid, w'))))"

definition spawn_stopped :: "sys \<Rightarrow> string list \<Rightarrow> u32 comp" where
  "spawn_stopped sy argv =
     (if argv = [] then (\<lambda>w. Some (Panic, w))
      else with_context (''spawning '' @ [CHR 0x60] @ join '' '' argv @ [CHR 0x60])
             (command_spawn sy argv))"

definition WIFSTOPPED :: "i32 \<Rightarrow> bool" where "WIFSTOPPED status \<longleftrightarrow> status AND 0xFF = 0x7F"
definition WIFEXITED :: "i32 \<Rightarrow> bool" where "WIFEXITED status \<longleftrightarrow> status AND 0x7F = 0"
definition WIFSIGNALED :: "i32 \<Rightarrow> bool" where
  "WIFSIGNALED status \<longleftrightarrow> 2 \<le> sint (ucast ((status AND 0x7F) + 1) :: 8 word)"

partial_function (option) wait_until_stopped :: "sys \<Rightarrow> u32 \<Rightarrow> world \<Rightarrow> (unit outcome \<times> world) option" where
  "wait_until_stopped sy cpid w =
     (case sy_waitpid sy w cpid of (ret, status) \<Rightarrow>
        let w' = logged (Waitpid cpid) w in
        if sint ret < 0 then
          Some (Fail [''waitpid('' @ dec (unat cpid) @ '') failed: '' @ sy_errno sy w'], w')
        else if WIFSTOPPED status then Some (Ret (), w')
        else if WIFEXITED status \<or> WIFSIGNALED status then
          Some (Fail [''child '' @ dec (unat cpid) @ '' exited before tracing could start''], w')
        else wait_until_stopped sy cpid w')"

definition resume :: "sys \<Rightarrow> u32 \<Rightarrow> unit comp" where
  "resume sy cpid w =
     (let w' = logged (Ptrace_detach cpid) w in
      if sy_detach sy w cpid \<noteq> 0 then
        Some (Fail [''PTRACE_DETACH('' @ dec (unat cpid) @ '') failed: '' @ sy_errno sy w'], w')
      else Some (Ret (), w'))"

definition has_exited :: "sys \<Rightarrow> u32 \<Rightarrow> world \<Rightarrow> bool \<times> world" where
  "has_exited sy cpid w = (sy_waitpid_nohang sy w cpid = cpid, logged (Waitpid_nohang cpid) w)"

section \<open>Lemmas\<close>

lemma spawn_stopped_Ret:
  "spawn_stopped sy argv w = Some (Ret cpid, w') \<Longrightarrow>
   argv \<noteq> [] \<and> sy_fork sy w argv = Inr cpid \<and> sy_traceme sy w' = 0 \<and> w' = logged (Fork argv) w"
  by (auto simp: spawn_stopped_def command_spawn_def pre_exec_def Let_def
      split: if_splits sum.splits option.splits)

lemma only_spawn_stopped: "C (Fork argv) \<Longrightarrow> only C (spawn_stopped sy argv)"
  by (auto simp: spawn_stopped_def command_spawn_def only_def Let_def with_context_def
      split: if_splits sum.splits option.splits outcome.splits)

lemma only_resume: "C (Ptrace_detach cpid) \<Longrightarrow> only C (resume sy cpid)"
  by (auto simp: resume_def only_def Let_def split: if_splits)

lemma resume_Ret: "resume sy cpid w = Some (Ret u, w') \<Longrightarrow> w' = logged (Ptrace_detach cpid) w"
  by (auto simp: resume_def Let_def split: if_splits)

lemma adds_has_exited: "C (Waitpid_nohang cpid) \<Longrightarrow> adds C w (snd (has_exited sy cpid w))"
  by (simp add: has_exited_def)

lemmas wait_induct = wait_until_stopped.raw_induct [rotated, consumes 1, case_names step]

text \<open>The three tests are exhaustive but for the status of a continued child.\<close>

lemma low_byte:
  fixes s :: "32 word"
  shows "unat (s AND 0xFF) = unat s mod 256" "unat (s AND 0x7F) = unat s mod 128"
proof -
  have "(0xFF :: 32 word) = mask 8" "(0x7F :: 32 word) = mask 7" by (simp_all add: mask_eq_exp_minus_1)
  then show "unat (s AND 0xFF) = unat s mod 256" "unat (s AND 0x7F) = unat s mod 128"
    by (simp_all only: unsigned_take_bit_eq take_bit_eq_mask [symmetric] take_bit_eq_mod)
      (simp_all add: unat_mod_distrib)
qed

lemma signed_byte: "v \<in> set [0..<129] \<Longrightarrow> 2 \<le> sint (word_of_nat v :: 8 word) \<longleftrightarrow> 2 \<le> v \<and> v < 128"
proof -
  have "\<forall>v\<in>set [0..<129]. (2 \<le> sint (word_of_nat v :: 8 word)) = (2 \<le> v \<and> v < 128)" by code_simp
  then show "v \<in> set [0..<129] \<Longrightarrow> 2 \<le> sint (word_of_nat v :: 8 word) \<longleftrightarrow> 2 \<le> v \<and> v < 128" by blast
qed

lemma wait_status:
  "WIFSTOPPED s \<longleftrightarrow> unat s mod 256 = 127" "WIFEXITED s \<longleftrightarrow> unat s mod 128 = 0"
  "WIFSIGNALED s \<longleftrightarrow> 0 < unat s mod 128 \<and> unat s mod 128 < 127"
proof -
  show "WIFSTOPPED s \<longleftrightarrow> unat s mod 256 = 127" "WIFEXITED s \<longleftrightarrow> unat s mod 128 = 0"
    by (simp_all add: WIFSTOPPED_def WIFEXITED_def word_unat_eq_iff low_byte)
  let ?k = "unat s mod 128"
  have "(s AND 0x7F) + 1 = word_of_nat (Suc ?k)"
    by (simp add: low_byte(2) [symmetric] add.commute)
  then have "(ucast ((s AND 0x7F) + 1) :: 8 word) = ucast (word_of_nat (Suc ?k) :: 32 word)"
    by (simp only:)
  also have "\<dots> = word_of_nat (Suc ?k)"
  proof -
    have "Suc ?k < 2 ^ 32" using mod_less_divisor [of 128 "unat s"] by simp
    then have "unat (word_of_nat (Suc ?k) :: 32 word) = Suc ?k" by (simp add: unat_of_nat del: of_nat_Suc)
    moreover have "ucast x = (word_of_nat (unat x) :: 8 word)" for x :: "32 word" by simp
    ultimately show ?thesis by (simp only:)
  qed
  finally show "WIFSIGNALED s \<longleftrightarrow> 0 < ?k \<and> ?k < 127"
    using signed_byte [of "Suc ?k"] by (simp add: WIFSIGNALED_def Suc_le_eq del: of_nat_Suc)
qed

lemma wait_status_exhaustive:
  "WIFSTOPPED s \<or> WIFEXITED s \<or> WIFSIGNALED s \<longleftrightarrow> unat s mod 256 \<noteq> 255"
proof -
  define m where "m = unat s mod 256"
  have m: "unat s mod 128 = m mod 128" "m < 256" by (simp_all add: m_def mod_mod_cancel)
  have k: "m mod 128 = (if m < 128 then m else m - 128)" using m(2) by (simp add: mod_if)
  show ?thesis unfolding wait_status m_def [symmetric] m(1) k using m(2) by auto
qed

lemma wait_calls:
  assumes "wait_until_stopped sy cpid w = Some (r, w')"
  shows "\<exists>n. w_log w' = replicate (Suc n) (Waitpid cpid) @ w_log w \<and> w_files w' = w_files w \<and> w_stop w' = w_stop w"
  using assms
proof (induction sy cpid w "(r, w')" arbitrary: r w' rule: wait_induct)
  case (step rec sy cpid w)
  show ?case
  proof (cases "w' = logged (Waitpid cpid) w")
    case True
    then show ?thesis by (intro exI [of _ 0]) simp
  next
    case False
    then have "rec sy cpid (logged (Waitpid cpid) w) = Some (r, w')"
      using step(2) by (auto simp: Let_def split: prod.splits if_splits)
    from step(1) [OF this] obtain n where
      "w_log w' = replicate (Suc n) (Waitpid cpid) @ Waitpid cpid # w_log w" "w_files w' = w_files w"
      "w_stop w' = w_stop w" by auto
    then show ?thesis by (intro exI [of _ "Suc n"]) (simp add: replicate_app_Cons_same)
  qed
qed

lemma only_wait: "C (Waitpid cpid) \<Longrightarrow> only C (wait_until_stopped sy cpid)"
  unfolding only_def adds_def using wait_calls by (metis Ball_set in_set_replicate)

section \<open>Properties\<close>

text \<open>C32: Waiting for the child ends with its first report, for any status the kernel can give
  without \<open>WCONTINUED\<close>: one \<open>waitpid\<close> is made, and the wait succeeds exactly when that call
  reports a stop; a failed call and an exit are errors.\<close>

theorem wait_ends_with_first_report:
  assumes "sy_waitpid sy w cpid = (ret, status)"
    and "sint ret < 0 \<or> unat status mod 256 \<noteq> 255"
  shows "\<exists>r. wait_until_stopped sy cpid w = Some (r, logged (Waitpid cpid) w) \<and>
    r = (if 0 \<le> sint ret \<and> WIFSTOPPED status then Ret ()
         else if 0 \<le> sint ret then Fail [''child '' @ dec (unat cpid) @ '' exited before tracing could start'']
         else Fail [''waitpid('' @ dec (unat cpid) @ '') failed: '' @ sy_errno sy (logged (Waitpid cpid) w)])"
  using assms wait_status_exhaustive [of status]
  by (auto simp: wait_until_stopped.simps [of sy cpid w] Let_def)

theorem wait_ends_with_first_report_witness:
  "wait_until_stopped ex_sys 7 ex_world = Some (Ret (), logged (Waitpid 7) ex_world)"
  using wait_ends_with_first_report [where sy = ex_sys and w = ex_world and cpid = 7 and ret = 7 and status = "0x57F"]
  by (simp add: ex_sys_def wait_status)

end
