(* ===== verification/Cli.thy ===== *)
theory Cli
  imports Loader Child Explain
begin

text \<open>
  The command line (\<open>whyslow-cli/src/main.rs\<close>): the three commands, the signal handler and
  the process's exit. Argument parsing is the \<open>clap\<close> library's; its result is a \<open>command\<close>.
\<close>

section \<open>Commands\<close>

datatype command =
    Run (run_trace_out: string) (run_slowest: u64) (run_command: "string list")
  | Attach (attach_pid: u32) (attach_trace_out: string) (attach_slowest: u64) (attach_duration_secs: "u64 option")
  | Explain_cmd (explain_slowest: u64) (explain_trace: string)

definition require_root :: "sys \<Rightarrow> unit comp" where
  "require_root sy w =
     (let w' = logged Geteuid w in
      if sy_geteuid sy w \<noteq> 0 then
        Some (Fail [''whyslow needs root or CAP_BPF to load its eBPF programs. '' @
          ''Try again with sudo (this includes containers / restricted cloud '' @
          ''shells / WSL without CAP_BPF configured -- see README.md).''], w')
      else Some (Ret (), w'))"

text \<open>\<open>TraceFile::capture_anchor\<close> and \<open>TraceFile::write_to\<close> on the machine.\<close>

definition take_anchor :: "sys \<Rightarrow> (u64 \<times> u64) comp" where
  "take_anchor sy w =
     (let w1 = logged Clock_realtime w;
          w2 = logged Clock_monotonic w1
      in case capture_anchor (sy_overflow_checks sy) (sy_realtime sy w) (sy_monotonic sy w1) of
           None \<Rightarrow> Some (Panic, w2)
         | Some a \<Rightarrow> Some (Ret a, w2))"

definition write_trace :: "sys \<Rightarrow> trace_file \<Rightarrow> string \<Rightarrow> unit comp" where
  "write_trace sy tf path w =
     (case write_to (sy_files sy) (sy_codec sy) tf path (w_files w) of
        (Inl e, fs) \<Rightarrow> Some (Fail [e], (logged (Write_file path) w)\<lparr>w_files := fs\<rparr>)
      | (Inr _, fs) \<Rightarrow> Some (Ret (), (logged (Write_file path) w)\<lparr>w_files := fs\<rparr>))"

text \<open>\<open>color_enabled\<close> takes its decision once; later calls find it.\<close>

definition color_checked :: "world \<Rightarrow> world" where
  "color_checked w = (if w_enabled w then w else (logged Init_color w)\<lparr>w_enabled := True\<rparr>)"

definition color_check :: "unit comp" where
  "color_check w = Some (Ret (), color_checked w)"

definition banner :: "host \<Rightarrow> unit comp" where
  "banner h =
     and_then (println []) (\<lambda>_.
     and_then color_check (\<lambda>_.
     println_all (banner_body (h_color h))))"

text \<open>\<open>causal::explain\<close> on the machine: what it asks for are calls.\<close>

fun ask_world :: "ask \<Rightarrow> world \<Rightarrow> world" where
  "ask_world (Ask_link path) w = logged (Read_link path) w"
| "ask_world (Ask_localtime secs) w = logged (Localtime_r secs) w"
| "ask_world Ask_color w = color_checked w"

definition explained :: "host \<Rightarrow> trace_file \<Rightarrow> u64 \<Rightarrow> string list list comp" where
  "explained h tf slowest w = Some (Ret (explain h tf slowest), fold ask_world (explain_asks h tf slowest) w)"

text \<open>The end of \<open>run\<close> and \<open>attach\<close>: build the trace, write it, explain it.\<close>

definition report :: "host \<Rightarrow> sys \<Rightarrow> u64 \<times> u64 \<Rightarrow> trace_event list \<Rightarrow> string \<Rightarrow> u64 \<Rightarrow> unit comp" where
  "report h sy anchor evs trace_out slowest =
     (let tf = \<lparr>realtime_anchor_ns = fst anchor, monotonic_anchor_ns = snd anchor, events = evs\<rparr> in
      and_then (with_context (''writing trace to '' @ trace_out) (write_trace sy tf trace_out)) (\<lambda>_.
      and_then (println []) (\<lambda>_.
      and_then (explained h tf slowest) (\<lambda>chains.
      println_all (print_chains (h_color h) chains)))))"

definition tracing_line :: "bool \<Rightarrow> string list \<Rightarrow> string" where
  "tracing_line en cmd =
     blue en ([CHR 0xE2, CHR 0x96, CHR 0xB8] @ '' tracing:'') @ '' '' @ bold en (join '' '' cmd)"

definition run :: "host \<Rightarrow> sys \<Rightarrow> string list \<Rightarrow> string \<Rightarrow> u64 \<Rightarrow> unit comp" where
  "run h sy cmd trace_out slowest =
     and_then (require_root sy) (\<lambda>_.
     and_then (banner h) (\<lambda>_.
     and_then (println (tracing_line (h_color h) cmd)) (\<lambda>_.
     and_then (spawn_stopped sy cmd) (\<lambda>child.
     and_then (with_context ''waiting for child to reach pre-exec stop point''
       (wait_until_stopped sy child)) (\<lambda>_.
     and_then (load_and_attach sy) (\<lambda>_.
     and_then (set_target_tgid sy child) (\<lambda>_.
     and_then (take_anchor sy) (\<lambda>anchor.
     and_then (with_context ''resuming child after attaching BPF'' (resume sy child)) (\<lambda>_.
     and_then (drain_ring_buffer sy (has_exited sy child)) (\<lambda>evs.
     report h sy anchor evs trace_out slowest))))))))))"

section \<open>Attaching\<close>

definition handle_sigint :: "world \<Rightarrow> world" where
  "handle_sigint w = w\<lparr>w_stop := True\<rparr>"

text \<open>A pending signal runs the handler before the flag is read.\<close>

definition load_stop_requested :: "sys \<Rightarrow> world \<Rightarrow> bool \<times> world" where
  "load_stop_requested sy w =
     (let w' = (if sy_sigint sy w then handle_sigint w else w) in (w_stop w', w'))"

definition process_gone :: "sys \<Rightarrow> u32 \<Rightarrow> world \<Rightarrow> bool \<times> world" where
  "process_gone sy p w = (sy_kill0 sy w p \<noteq> 0, logged (Kill0 p) w)"

definition attach_should_stop :: "sys \<Rightarrow> u32 \<Rightarrow> int option \<Rightarrow> world \<Rightarrow> bool \<times> world" where
  "attach_should_stop sy p deadline w =
     (case load_stop_requested sy w of (stop, w) \<Rightarrow>
        if stop then (True, w)
        else (case deadline of
                None \<Rightarrow> process_gone sy p w
              | Some d \<Rightarrow>
                  (let now = sy_now sy w; w = logged Instant_now w in
                   if d \<le> now then (True, w) else process_gone sy p w)))"

text \<open>
  Instants are nanoseconds; adding a duration panics when the seconds leave \<open>i64\<close>.
\<close>

definition deadline_after :: "sys \<Rightarrow> u64 option \<Rightarrow> int option comp" where
  "deadline_after sy duration_secs w =
     (case duration_secs of
        None \<Rightarrow> Some (Ret None, w)
      | Some secs \<Rightarrow>
          (let now = sy_now sy w; w' = logged Instant_now w in
           if 2 ^ 63 \<le> now div 1000000000 + uint secs then Some (Panic, w')
           else Some (Ret (Some (now + uint secs * 1000000000)), w')))"

definition attach :: "host \<Rightarrow> sys \<Rightarrow> u32 \<Rightarrow> string \<Rightarrow> u64 \<Rightarrow> u64 option \<Rightarrow> unit comp" where
  "attach h sy p trace_out slowest duration_secs =
     and_then (require_root sy) (\<lambda>_.
     and_then (banner h) (\<lambda>_.
     and_then (\<lambda>w. case process_gone sy p w of (gone, w) \<Rightarrow>
       Some (if gone then Fail [''no such process: '' @ dec (unat p)] else Ret (), w)) (\<lambda>_.
     and_then (load_and_attach sy) (\<lambda>_.
     and_then (set_target_tgid sy p) (\<lambda>_.
     and_then (take_anchor sy) (\<lambda>anchor.
     and_then (call Signal_sigint) (\<lambda>_.
     and_then (println (''whyslow: tracing pid '' @ dec (unat p) @
       '', press Ctrl-C to stop and print results...'')) (\<lambda>_.
     and_then (deadline_after sy duration_secs) (\<lambda>deadline.
     and_then (drain_ring_buffer sy (attach_should_stop sy p deadline)) (\<lambda>evs.
     report h sy anchor evs trace_out slowest))))))))))"

section \<open>Explaining a saved trace\<close>

definition load_trace :: "sys \<Rightarrow> string \<Rightarrow> trace_file comp" where
  "load_trace sy path w =
     (let w' = logged (Read_file path) w in
      case read_from (sy_files sy) (sy_codec sy) path (w_files w) of
        Inl e \<Rightarrow> Some (Fail [e], w')
      | Inr tf \<Rightarrow> Some (Ret tf, w'))"

definition explain_cmd :: "host \<Rightarrow> sys \<Rightarrow> string \<Rightarrow> u64 \<Rightarrow> unit comp" where
  "explain_cmd h sy path slowest =
     and_then (with_context (''reading trace from '' @ path) (load_trace sy path)) (\<lambda>tf.
     and_then (explained h tf slowest) (\<lambda>chains.
     println_all (print_chains (h_color h) chains)))"

section \<open>The process\<close>

definition try_main :: "host \<Rightarrow> sys \<Rightarrow> command \<Rightarrow> unit comp" where
  "try_main h sy cmd =
     (case cmd of
        Run trace_out slowest argv \<Rightarrow> run h sy argv trace_out slowest
      | Attach p trace_out slowest duration_secs \<Rightarrow> attach h sy p trace_out slowest duration_secs
      | Explain_cmd slowest path \<Rightarrow> explain_cmd h sy path slowest)"

definition error_lines :: "bool \<Rightarrow> err \<Rightarrow> string list" where
  "error_lines en e =
     (case e of
        [] \<Rightarrow> []
      | msg # causes \<Rightarrow>
          (bold_red en ''error:'' @ '' '' @ msg) #
          map (\<lambda>cause. ''  '' @ dim en ''caused by:'' @ '' '' @ cause) causes)"

text \<open>The exit code; a panic unwinds to the runtime, which exits with 101.\<close>

definition main :: "host \<Rightarrow> sys \<Rightarrow> command \<Rightarrow> world \<Rightarrow> (nat \<times> world) option" where
  "main h sy cmd w =
     (case try_main h sy cmd w of
        None \<Rightarrow> None
      | Some (Ret _, w') \<Rightarrow> Some (0, w')
      | Some (Fail e, w') \<Rightarrow>
          (let w'' = color_checked w' in
           Some (1, w''\<lparr>w_log := rev (map Eprintln (error_lines (h_color h) e)) @ w_log w''\<rparr>))
      | Some (Panic, w') \<Rightarrow> Some (101, w'))"

text \<open>A later invocation of the tool is another process on the same machine.\<close>

definition new_process :: "world \<Rightarrow> world" where
  "new_process w = w\<lparr>w_stop := False, w_enabled := False\<rparr>"

section \<open>Lemmas\<close>

lemma println_all_Ret [simp]:
  "println_all ls w = Some (r, w') \<longleftrightarrow> r = Ret () \<and> w' = w\<lparr>w_log := rev (map Println ls) @ w_log w\<rparr>"
  by (induction ls arbitrary: w) (auto simp: println_def and_then_def call_def logged_def)

lemma println_Ret [simp]: "println s w = Some (r, w') \<longleftrightarrow> r = Ret () \<and> w' = logged (Println s) w"
  by (simp add: println_def)

lemma color_checked_sel [simp]:
  "w_log (color_checked w) = (if w_enabled w then [] else [Init_color]) @ w_log w"
  "w_files (color_checked w) = w_files w" "w_stop (color_checked w) = w_stop w" "w_enabled (color_checked w)"
  by (simp_all add: color_checked_def)

definition banner_calls :: "bool \<Rightarrow> bool \<Rightarrow> call list" where
  "banner_calls decided en =
     [Println []] @ (if decided then [] else [Init_color]) @ map Println (banner_body en)"

lemma banner_Ret [simp]:
  "banner h w = Some (r, w') \<longleftrightarrow> r = Ret () \<and>
     w' = w\<lparr>w_log := rev (banner_calls (w_enabled w) (h_color h)) @ w_log w, w_enabled := True\<rparr>"
proof -
  have "banner h w = Some (Ret (),
      w\<lparr>w_log := rev (banner_calls (w_enabled w) (h_color h)) @ w_log w, w_enabled := True\<rparr>)"
    unfolding banner_def
    by (simp add: and_then_def println_def call_def color_check_def banner_calls_def color_checked_def logged_def)
  then show ?thesis by auto
qed

text \<open>The calls an explanation makes.\<close>

fun ask_call :: "call \<Rightarrow> bool" where
  "ask_call (Read_link p) = True"
| "ask_call (Localtime_r t) = True"
| "ask_call Init_color = True"
| "ask_call c = False"

fun is_link_call :: "call \<Rightarrow> bool" where
  "is_link_call (Read_link p) = True"
| "is_link_call c = False"

lemma asks_made:
  "\<exists>new. w_log (fold ask_world qs w) = new @ w_log w \<and> list_all ask_call new
     \<and> filter is_link_call new = rev (concat (map (\<lambda>q. case q of Ask_link p \<Rightarrow> [Read_link p] | _ \<Rightarrow> []) qs))
     \<and> w_files (fold ask_world qs w) = w_files w"
proof (induction qs arbitrary: w)
  case (Cons q qs)
  from Cons.IH [of "ask_world q w"] obtain new where
    new: "w_log (fold ask_world qs (ask_world q w)) = new @ w_log (ask_world q w)" "list_all ask_call new"
    "filter is_link_call new = rev (concat (map (\<lambda>q. case q of Ask_link p \<Rightarrow> [Read_link p] | _ \<Rightarrow> []) qs))"
    "w_files (fold ask_world qs (ask_world q w)) = w_files (ask_world q w)" by blast
  obtain one where "w_log (ask_world q w) = one @ w_log w" "list_all ask_call one"
    "filter is_link_call one = (case q of Ask_link p \<Rightarrow> [Read_link p] | _ \<Rightarrow> [])" "w_files (ask_world q w) = w_files w"
    by (cases q; cases "w_enabled w") auto
  with new show ?case by (intro exI [of _ "new @ one"]) (auto split: ask.split)
qed simp

lemma explained_Ret [simp]:
  "explained h tf n w = Some (r, w') \<longleftrightarrow>
     r = Ret (explain h tf n) \<and> w' = fold ask_world (explain_asks h tf n) w"
  by (auto simp: explained_def)

lemma only_explained: "(\<And>c. ask_call c \<Longrightarrow> C c) \<Longrightarrow> only C (explained h tf n)"
  unfolding only_def adds_def explained_Ret using asks_made by (metis Ball_set)

lemma only_banner: "C Init_color \<Longrightarrow> (\<And>l. C (Println l)) \<Longrightarrow> only C (banner h)"
  unfolding only_def adds_def banner_Ret
  by (auto simp: banner_calls_def list_all_iff intro!: exI [of _ "rev (banner_calls _ _)"])

lemma require_root_Ret [simp]:
  "require_root sy w = Some (Ret u, w') \<longleftrightarrow> sy_geteuid sy w = 0 \<and> w' = logged Geteuid w"
  by (auto simp: require_root_def Let_def)

lemma take_anchor_Ret:
  "take_anchor sy w = Some (Ret a, w') \<Longrightarrow> w' = logged Clock_monotonic (logged Clock_realtime w)"
  by (auto simp: take_anchor_def Let_def split: option.splits)

lemma quiet_stop_has_exited: "quiet_stop (has_exited sy p)"
  by (simp add: quiet_stop_def has_exited_def)

lemma quiet_stop_attach: "quiet_stop (attach_should_stop sy p d)"
proof -
  have "\<exists>new. w_log (snd (attach_should_stop sy p d w)) = new @ w_log w \<and> list_all quiet new" for w
    by (auto simp: attach_should_stop_def load_stop_requested_def process_gone_def handle_sigint_def
        Let_def split: option.splits
        intro: exI [of _ "[]"] exI [of _ "[Kill0 p]"] exI [of _ "[Instant_now]"] exI [of _ "[Kill0 p, Instant_now]"])
  then show ?thesis by (simp add: quiet_stop_def)
qed

end
