(* ===== verification/Session.thy ===== *)
theory Session
  imports Loader Probes
begin

text \<open>
  Kernel and user space together. The kernel runs attached programs at any time between two
  calls of the tool, in contexts of its choice (\<open>kernel\<close>); the tool's calls write the target
  map and take records out of the ring. This is the model's own provider of the ring
  contract \<open>fifo_ring\<close>, and it carries the session invariant of the probes to what is
  drained.
\<close>

section \<open>The maps after a sequence of calls\<close>

type_synonym kernel = "call list \<Rightarrow> (probe \<times> bpf_ctx) list"

fun tracepoint_of :: "probe \<Rightarrow> string \<times> string" where
  "tracepoint_of Sched_switch = (''sched'', ''sched_switch'')"
| "tracepoint_of Futex_enter = (''syscalls'', ''sys_enter_futex'')"
| "tracepoint_of Futex_exit = (''syscalls'', ''sys_exit_futex'')"
| "tracepoint_of Block_rq_issue = (''block'', ''block_rq_issue'')"
| "tracepoint_of Block_rq_complete = (''block'', ''block_rq_complete'')"

definition attached :: "call list \<Rightarrow> probe \<Rightarrow> bool" where
  "attached cs p = (case tracepoint_of p of (c, n) \<Rightarrow> Attach_tracepoint c n \<in> set cs)"

fun fires :: "call list \<Rightarrow> (probe \<times> bpf_ctx) list \<Rightarrow> bpf_maps \<Rightarrow> bpf_maps" where
  "fires cs [] s = s"
| "fires cs ((p, ctx) # fs) s = fires cs fs (if attached cs p then do_step (Fire p ctx) s else s)"

fun user_step :: "call \<Rightarrow> bpf_maps \<Rightarrow> bpf_maps" where
  "user_step (Set_target_map t) s = do_step (Set_target t) s"
| "user_step (Ring_item r) s = do_step Consume s"
| "user_step c s = s"

fun maps_after :: "kernel \<Rightarrow> call list \<Rightarrow> bpf_maps" where
  "maps_after K [] = bpf_init"
| "maps_after K (c # cs) = fires (c # cs) (K (c # cs)) (user_step c (maps_after K cs))"

definition ring_next :: "kernel \<Rightarrow> call list \<Rightarrow> u8 list option" where
  "ring_next K cs = (case EVENTS (maps_after K cs) of [] \<Rightarrow> None | r # rs \<Rightarrow> Some r)"

definition submitted :: "kernel \<Rightarrow> call list \<Rightarrow> u8 list list" where
  "submitted K cs = popped cs @ EVENTS (maps_after K cs)"

lemma fires_append: "prefix (EVENTS s) (EVENTS (fires cs fs s))"
proof (induction cs fs s rule: fires.induct)
  case (2 cs p ctx fs s)
  have "prefix (EVENTS s) (EVENTS (do_step (Fire p ctx) s))"
    using fire_appends [of p ctx s] by (auto simp: prefix_def)
  with 2 show ?case by (auto intro: prefix_order.trans)
qed simp

text \<open>A log is faithful when each record in it is the one the ring held.\<close>

fun faithful :: "kernel \<Rightarrow> call list \<Rightarrow> bool" where
  "faithful K [] = True"
| "faithful K (Ring_item r # cs) = (ring_next K cs = Some r \<and> faithful K cs)"
| "faithful K (c # cs) = faithful K cs"

interpretation session: fifo_ring "ring_next K" "submitted K" "faithful K" for K
proof
  fix cs r
  assume r: "ring_next K cs = Some r"
  then obtain rs where rs: "EVENTS (maps_after K cs) = r # rs"
    by (auto simp: ring_next_def split: list.splits)
  show "\<exists>later. submitted K cs = popped cs @ r # later" by (simp add: submitted_def rs)
  show "prefix (submitted K cs) (submitted K (Ring_item r # cs))"
    using fires_append [of "do_step Consume (maps_after K cs)"] by (simp add: submitted_def rs)
next
  fix cs
  assume "ring_next K cs = None"
  then show "submitted K cs = popped cs" by (auto simp: ring_next_def submitted_def split: list.splits)
next
  fix c cs
  assume c: "\<forall>r. c \<noteq> Ring_item r"
  then have "popped (c # cs) = popped cs" "EVENTS (user_step c (maps_after K cs)) = EVENTS (maps_after K cs)"
    by (cases c; simp add: write_target_def)+
  then show "prefix (submitted K cs) (submitted K (c # cs))"
    using fires_append [of "user_step c (maps_after K cs)" "c # cs" "K (c # cs)"] by (simp add: submitted_def)
  show "faithful K cs \<Longrightarrow> faithful K (c # cs)" using c by (cases c) auto
qed auto

section \<open>The session invariant\<close>

definition wf_kernel :: "kernel \<Rightarrow> bool" where
  "wf_kernel K \<longleftrightarrow> (\<forall>cs. list_all (\<lambda>(p, ctx). wf_ctx ctx) (K cs))"

definition only_target :: "u32 \<Rightarrow> call list \<Rightarrow> bool" where
  "only_target t cs \<longleftrightarrow> list_all (\<lambda>c. \<forall>t'. c = Set_target_map t' \<longrightarrow> t' = t) cs"

lemma only_target_simps [simp]:
  "only_target t []" "only_target t (cs @ ds) \<longleftrightarrow> only_target t cs \<and> only_target t ds"
  "only_target t (Ring_item r # cs) \<longleftrightarrow> only_target t cs" "only_target t (Ring_empty # cs) \<longleftrightarrow> only_target t cs"
  "only_target t (Poll # cs) \<longleftrightarrow> only_target t cs"
  by (simp_all add: only_target_def)

lemma only_target_quiet: "list_all quiet new \<Longrightarrow> only_target t new"
  by (auto simp: only_target_def list_all_iff)

lemma traced_fires:
  "traced t s \<Longrightarrow> list_all (\<lambda>(p, ctx). wf_ctx ctx) fs \<Longrightarrow> traced t (fires cs fs s)"
proof (induction cs fs s rule: fires.induct)
  case (2 cs p ctx fs s)
  then have "traced t (do_step (Fire p ctx) s)" by (intro traced.fire) simp_all
  with 2 show ?case by (simp del: do_step.simps)
qed simp

lemma traced_maps_after:
  assumes "wf_kernel K"
  shows "only_target t cs \<Longrightarrow> traced t (maps_after K cs)"
proof (induction cs)
  case Nil
  then show ?case by (simp add: traced.loaded)
next
  case (Cons c cs)
  then have "traced t (maps_after K cs)" by (simp add: only_target_def)
  moreover have "\<forall>t'. c = Set_target_map t' \<longrightarrow> t' = t" using Cons.prems by (simp add: only_target_def)
  ultimately have "traced t (user_step c (maps_after K cs))"
    by (cases c) (auto intro: traced.intros simp del: do_step.simps)
  then show ?case using assms by (simp add: traced_fires wf_kernel_def)
qed

lemma faithful_quiet: "list_all quiet new \<Longrightarrow> faithful K (new @ cs) = faithful K cs"
proof (induction new)
  case (Cons c new)
  then show ?case by (cases c) auto
qed simp

lemma faithful_no_ring: "popped cs = [] \<Longrightarrow> faithful K cs"
proof (induction cs)
  case (Cons c cs)
  then show ?case by (cases c) auto
qed simp

lemma ring_next_good:
  assumes "wf_kernel K" and "only_target t cs" and "ring_next K cs = Some r"
  shows "good_record t r"
proof -
  have "r \<in> set (EVENTS (maps_after K cs))"
    using assms(3) by (auto simp: ring_next_def split: list.splits)
  then show ?thesis using traced_inv [OF traced_maps_after [OF assms(1,2)]] by (simp add: bpf_inv_def)
qed

lemma popped_good:
  assumes "wf_kernel K"
  shows "faithful K cs \<Longrightarrow> only_target t cs \<Longrightarrow> r \<in> set (popped cs) \<Longrightarrow> good_record t r"
proof (induction cs)
  case (Cons c cs)
  have only: "only_target t cs" using Cons.prems(2) by (simp add: only_target_def)
  show ?case
  proof (cases "\<exists>r'. c = Ring_item r'")
    case True
    then obtain r' where c: "c = Ring_item r'" by blast
    then have "ring_next K cs = Some r'" "faithful K cs" using Cons.prems(1) by simp_all
    then show ?thesis using Cons only c ring_next_good [OF assms only] by auto
  next
    case False
    then have "faithful K cs" "r \<in> set (popped cs)" using Cons.prems by (cases c; simp)+
    then show ?thesis using Cons.IH only by blast
  qed
qed simp

lemma drain_items_faithful:
  assumes "drain_items sy evs w = Some (evs', w')" and "\<forall>w. sy_next sy w = ring_next K (w_log w)"
    and "faithful K (w_log w)" and "only_target t (w_log w)"
  shows "faithful K (w_log w') \<and> only_target t (w_log w')"
  using assms
proof (induction sy evs w "(evs', w')" arbitrary: evs' w' rule: drain_items_induct)
  case (step rec sy evs w)
  show ?case
  proof (cases "sy_next sy w")
    case None
    then show ?thesis using step by auto
  next
    case (Some item)
    then have "rec sy (push_item evs item) (logged (Ring_item item) w) = Some (evs', w')"
      using step(2) by simp
    from step(1) [OF this step(3)] Some step(3,4,5) show ?thesis by simp
  qed
qed

lemma drain_loop_faithful:
  assumes "drain_loop sy ss evs w = Some (evs', w')" and "\<forall>w. sy_next sy w = ring_next K (w_log w)"
    and "quiet_stop ss" and "faithful K (w_log w)" and "only_target t (w_log w)"
  shows "faithful K (w_log w') \<and> only_target t (w_log w')"
  using assms
proof (induction sy ss evs w "(evs', w')" arbitrary: evs' w' rule: drain_loop_induct)
  case (step rec sy ss evs w)
  from step(2) obtain evs1 w1 where one: "drain_items sy evs w = Some (evs1, w1)"
    by (auto simp: bind_eq_Some_conv)
  obtain stop w2 where ss: "ss w1 = (stop, w2)" by fastforce
  obtain new where new: "w_log w2 = new @ w_log w1" "list_all quiet new"
    using step(4) ss unfolding quiet_stop_def by (metis snd_conv)
  have w2: "faithful K (w_log w2)" "only_target t (w_log w2)"
    using drain_items_faithful [OF one step(3,5,6)] new faithful_quiet only_target_quiet by auto
  show ?case
  proof (cases stop)
    case True
    then have "drain_items sy evs1 w2 = Some (evs', w')" using step(2) one ss by simp
    from drain_items_faithful [OF this step(3) w2] show ?thesis .
  next
    case False
    then have "rec sy ss evs1 (logged Poll w2) = Some (evs', w')" using step(2) one ss by simp
    from step(1) [OF this step(3,4)] w2 show ?thesis by simp
  qed
qed

lemma decoded_good:
  assumes "\<And>r. r \<in> set items \<Longrightarrow> good_record t r"
  shows "decoded items = map (\<lambda>r. trace_event_from (event_of_bytes r)) items"
  using assms by (simp add: decoded_filter good_record_def filter_id_conv)

text \<open>
  What a drain returns under the session's kernel: the records the probes submitted, all of
  them up to the stop, decoded without loss.
\<close>

lemma drain_session:
  assumes "drain_ring_buffer sy ss w = Some (Ret evs, w')" and "wf_kernel K"
    and "\<forall>w. sy_next sy w = ring_next K (w_log w)" and "quiet_stop ss"
    and "popped (w_log w) = []" and "only_target t (w_log w)"
  shows "\<exists>u items. fst (ss u) \<and> prefix (submitted K (w_log u)) items \<and> items = popped (w_log w')
    \<and> suffix (w_log w) (w_log u) \<and> suffix (w_log (snd (ss u))) (w_log w')
    \<and> list_all (good_record t) items
    \<and> evs = map (\<lambda>r. trace_event_from (event_of_bytes r)) items"
proof -
  have loop: "drain_loop sy ss [] w = Some (evs, w')"
    using assms(1) by (auto simp: drain_ring_buffer_def and_then_Ret)
  note all = session.drain_loop_all [OF loop assms(4,5,3)]
  have "faithful K (w_log w')" "only_target t (w_log w')"
    using drain_loop_faithful [OF loop assms(3,4) faithful_no_ring [OF assms(5)] assms(6)] by auto
  then have "\<And>r. r \<in> set (popped (w_log w')) \<Longrightarrow> good_record t r"
    using popped_good [OF assms(2)] by blast
  then show ?thesis using all decoded_good [of "popped (w_log w')" t] by (auto simp: list_all_iff)
qed

section \<open>Properties\<close>

text \<open>C26: Decoding inverts emitting: the record a probe writes decodes to the event it was given,
  whatever was in the padding, and a record of any other size is rejected.\<close>

theorem decode_inverts_emit:
  assumes "wf_event ev" and "cx_reserve_ok ctx"
  shows "map decode_event (EVENTS (emit ctx ev s)) = map decode_event (EVENTS s) @ [Some ev]
    \<and> (length item = 56 \<or> decode_event item = None)"
  using assms by (simp add: emit_def decode_event_def event_of_event_bytes event_layout)

theorem decode_inverts_emit_witness:
  "map decode_event (EVENTS (emit \<lparr>cx_mem = None, cx_pid_tgid = 0, cx_ktime = 5, cx_comm = None,
       cx_insert_ok = True, cx_reserve_ok = True, cx_pad = (\<lambda>_. 0xAA)\<rparr>
     (event_new 5 2 0 7 8 0 (replicate 16 97)) bpf_init)) = [Some (event_new 5 2 0 7 8 0 (replicate 16 97))]"
  using decode_inverts_emit [of "event_new 5 2 0 7 8 0 (replicate 16 97)"
      "\<lparr>cx_mem = None, cx_pid_tgid = 0, cx_ktime = 5, cx_comm = None,
       cx_insert_ok = True, cx_reserve_ok = True, cx_pad = (\<lambda>_. 0xAA)\<rparr>" bpf_init]
  by (simp add: TASK_COMM_LEN_def bpf_init_def)

end
