(* ===== verification/Cli_Properties.thy ===== *)
theory Cli_Properties
  imports Cli Session Explain_Properties
begin

text \<open>
  The properties of the command line: the order of its calls, what a failure leaves behind,
  the agreement of a saved trace with the report, termination of tracing, and the way of an
  event from the probe to the trace file. Claims about all outcomes of a command are proved
  with triples over computations.
\<close>

section \<open>Triples\<close>

text \<open>From \<open>P\<close>, a computation that returns establishes \<open>Q\<close> of its value, or \<open>E\<close> if it fails.\<close>

definition triple :: "(world \<Rightarrow> bool) \<Rightarrow> 'a comp \<Rightarrow> ('a \<Rightarrow> world \<Rightarrow> bool) \<Rightarrow> (world \<Rightarrow> bool) \<Rightarrow> bool" where
  "triple P m Q E \<longleftrightarrow> (\<forall>w r w'. P w \<longrightarrow> m w = Some (r, w') \<longrightarrow>
     (case r of Ret x \<Rightarrow> Q x w' | Fail e \<Rightarrow> E w' | Panic \<Rightarrow> E w'))"

lemma triple_and_then:
  assumes "triple P m Q E" and "\<And>x. triple (Q x) (f x) R E"
  shows "triple P (and_then m f) R E"
  unfolding triple_def
proof (intro allI impI)
  fix w r w''
  assume "P w" "and_then m f w = Some (r, w'')"
  from this(2) show "case r of Ret x \<Rightarrow> R x w'' | Fail e \<Rightarrow> E w'' | Panic \<Rightarrow> E w''"
    by (cases rule: and_then_cases) (use \<open>P w\<close> assms in \<open>fastforce simp: triple_def\<close>)+
qed

lemma triple_context: "triple P m Q E \<Longrightarrow> triple P (with_context s m) Q E"
  unfolding triple_def with_context_def by (fastforce split: option.splits outcome.splits)

lemma triple_only:
  assumes "only C m" and "\<And>w w'. P w \<Longrightarrow> adds C w w' \<Longrightarrow> Q w'" and "\<And>w. Q w \<Longrightarrow> E w"
  shows "triple P m (\<lambda>_. Q) E"
  using assms unfolding triple_def only_def by (fastforce split: outcome.splits)

lemma tripleD: "triple P m (\<lambda>_. Q) Q \<Longrightarrow> P w \<Longrightarrow> m w = Some (r, w') \<Longrightarrow> Q w'"
  by (cases r) (fastforce simp: triple_def)+

section \<open>The child runs only when it is traced\<close>

fun releases_traced :: "call list \<Rightarrow> bool" where
  "releases_traced [] = True"
| "releases_traced (c # cs) =
     (releases_traced cs \<and>
      (case c of Ptrace_detach q \<Rightarrow>
         Set_target_map q \<in> set cs \<and> list_all (\<lambda>(p, c, n). Attach_tracepoint c n \<in> set cs) TRACEPOINTS
       | _ \<Rightarrow> True))"

fun not_detach :: "call \<Rightarrow> bool" where
  "not_detach (Ptrace_detach q) = False"
| "not_detach c = True"

definition safe_world :: "world \<Rightarrow> bool" where
  "safe_world w \<longleftrightarrow> releases_traced (w_log w)"

definition attached_world :: "world \<Rightarrow> bool" where
  "attached_world w \<longleftrightarrow> safe_world w \<and> list_all (\<lambda>(p, c, n). Attach_tracepoint c n \<in> set (w_log w)) TRACEPOINTS"

definition target_world :: "u32 \<Rightarrow> world \<Rightarrow> bool" where
  "target_world t w \<longleftrightarrow> attached_world w \<and> Set_target_map t \<in> set (w_log w)"

lemmas worlds = safe_world_def attached_world_def target_world_def

lemma attached_safe: "attached_world w \<Longrightarrow> safe_world w"
  by (simp add: attached_world_def)

lemma releases_append: "list_all not_detach new \<Longrightarrow> releases_traced cs \<Longrightarrow> releases_traced (new @ cs)"
proof (induction new)
  case (Cons c new)
  then show ?case by (cases c) auto
qed simp

lemma adds_safe:
  assumes "adds not_detach w w'"
  shows "safe_world w \<Longrightarrow> safe_world w'" "attached_world w \<Longrightarrow> attached_world w'"
    "target_world t w \<Longrightarrow> target_world t w'"
  using assms releases_append by (auto simp: adds_def worlds list_all_iff)

lemma releases_split:
  "releases_traced (post @ Ptrace_detach q # pre) \<Longrightarrow>
   Set_target_map q \<in> set pre \<and> list_all (\<lambda>(p, c, n). Attach_tracepoint c n \<in> set pre) TRACEPOINTS"
  by (induction post) auto

lemma triple_safe:
  assumes "only not_detach m"
  shows "triple safe_world m (\<lambda>_. safe_world) safe_world"
    "triple (target_world t) m (\<lambda>_. target_world t) safe_world"
  by (rule triple_only [OF assms]; use adds_safe in \<open>auto simp: worlds\<close>)+

lemma triple_load: "triple safe_world (load_and_attach sy) (\<lambda>_. attached_world) safe_world"
proof -
  have "only not_detach (load_and_attach sy)" by (intro only_intros) simp_all
  then have "safe_world w \<Longrightarrow> load_and_attach sy w = Some (r, w') \<Longrightarrow> safe_world w'" for w r w'
    using onlyD adds_safe(1) by blast
  moreover have "load_and_attach sy w = Some (Ret u, w') \<Longrightarrow>
      list_all (\<lambda>(p, c, n). Attach_tracepoint c n \<in> set (w_log w')) TRACEPOINTS" for w u w'
    by (drule load_and_attach_Ret) (auto simp: TRACEPOINTS_def attach_calls_def)
  ultimately show ?thesis by (auto simp: triple_def attached_world_def split: outcome.splits)
qed

lemma triple_target: "triple attached_world (set_target_tgid sy t) (\<lambda>_. target_world t) safe_world"
proof -
  have "only not_detach (set_target_tgid sy t)" by (intro only_intros) simp
  then have "attached_world w \<Longrightarrow> set_target_tgid sy t w = Some (r, w') \<Longrightarrow> attached_world w'" for w r w'
    using onlyD adds_safe(2) by blast
  moreover have "set_target_tgid sy t w = Some (Ret u, w') \<Longrightarrow> Set_target_map t \<in> set (w_log w')" for w u w'
    by (drule set_target_tgid_Ret) simp
  ultimately show ?thesis
    unfolding triple_def target_world_def by (auto dest: attached_safe split: outcome.splits)
qed

lemma triple_resume: "triple (target_world t) (resume sy t) (\<lambda>_. safe_world) safe_world"
  by (auto simp: triple_def resume_def worlds Let_def split: if_splits)

lemma only_take_anchor: "C Clock_realtime \<Longrightarrow> C Clock_monotonic \<Longrightarrow> only C (take_anchor sy)"
  by (auto simp: only_def take_anchor_def Let_def split: option.splits intro: adds_step)

lemma only_require_root: "C Geteuid \<Longrightarrow> only C (require_root sy)"
  by (auto simp: only_def require_root_def Let_def split: if_splits)

lemma triple_report: "triple safe_world (report h sy a evs out n) (\<lambda>_. safe_world) safe_world"
  unfolding report_def Let_def
proof (intro triple_and_then triple_context)
  show "triple safe_world (write_trace sy tf out) (\<lambda>_. safe_world) safe_world" for tf
    by (auto simp: triple_def write_trace_def safe_world_def split: prod.splits sum.splits)
  show "triple safe_world (explained h sy_tf n) (\<lambda>_. safe_world) safe_world" for sy_tf
  proof (rule triple_safe(1), rule only_explained)
    show "ask_call c \<Longrightarrow> not_detach c" for c by (cases c) simp_all
  qed
qed (auto intro!: triple_safe(1) only_intros simp: println_def)

lemma triple_run: "triple safe_world (run h sy cmd out n) (\<lambda>_. safe_world) safe_world"
  unfolding run_def
proof (intro triple_and_then triple_context)
  show "triple safe_world (require_root sy) (\<lambda>_. safe_world) safe_world"
    by (rule triple_safe(1)) (simp add: only_require_root)
  show "triple safe_world (banner h) (\<lambda>_. safe_world) safe_world"
    by (rule triple_safe(1)) (simp add: only_banner)
  show "triple safe_world (println (tracing_line (h_color h) cmd)) (\<lambda>_. safe_world) safe_world"
    by (rule triple_safe(1)) (simp add: println_def only_intros)
  show "triple safe_world (spawn_stopped sy cmd) (\<lambda>_. safe_world) safe_world"
    by (rule triple_safe(1)) (simp add: only_spawn_stopped)
  show "triple safe_world (wait_until_stopped sy child) (\<lambda>_. safe_world) safe_world" for child
    by (rule triple_safe(1)) (simp add: only_wait)
  show "triple safe_world (load_and_attach sy) (\<lambda>_. attached_world) safe_world" by (rule triple_load)
  show "triple attached_world (set_target_tgid sy child) (\<lambda>_. target_world child) safe_world" for child
    by (rule triple_target)
  show "triple (target_world child) (take_anchor sy) (\<lambda>_. target_world child) safe_world" for child
    by (rule triple_safe(2)) (simp add: only_take_anchor)
  show "triple (target_world child) (resume sy child) (\<lambda>_. safe_world) safe_world" for child
    by (rule triple_resume)
  show "triple safe_world (drain_ring_buffer sy (has_exited sy child)) (\<lambda>_. safe_world) safe_world" for child
    by (rule triple_safe(1), rule only_drain_ring_buffer) (simp_all add: has_exited_def)
  show "triple safe_world (report h sy a evs out n) (\<lambda>_. safe_world) safe_world" for a evs
    by (rule triple_report)
qed

section \<open>Successful runs\<close>

text \<open>What happened when \<open>run\<close> succeeded, up to the drain.\<close>

definition run_prologue :: "bool \<Rightarrow> bool \<Rightarrow> string list \<Rightarrow> u32 \<Rightarrow> nat \<Rightarrow> call list" where
  "run_prologue decided en cmd child n =
     [Geteuid] @ banner_calls decided en @ [Println (tracing_line en cmd), Fork cmd] @
     replicate (Suc n) (Waitpid child) @ [Setrlimit_memlock, Load_object] @
     concat (map attach_calls TRACEPOINTS) @
     [Set_target_map child, Clock_realtime, Clock_monotonic, Ptrace_detach child]"

text \<open>The world in which the child is forked.\<close>

definition forking_world :: "host \<Rightarrow> string list \<Rightarrow> world \<Rightarrow> world" where
  "forking_world h cmd w = w\<lparr>w_log := Println (tracing_line (h_color h) cmd) #
     rev (banner_calls (w_enabled w) (h_color h)) @ Geteuid # w_log w, w_enabled := True\<rparr>"

lemma run_stages:
  assumes "run h sy cmd out k w = Some (Ret u, w')"
  shows "\<exists>child n anchor v evs v'.
    sy_fork sy (forking_world h cmd w) cmd = Inr child \<and> w_log v = rev (run_prologue (w_enabled w) (h_color h) cmd child n) @ w_log w \<and> w_files v = w_files w
    \<and> drain_ring_buffer sy (has_exited sy child) v = Some (Ret evs, v')
    \<and> report h sy anchor evs out k v' = Some (Ret u, w')"
proof -
  from assms obtain child anchor w3 w4 w5 w6 w7 w8 w9 where
    w3: "w3 = logged (Println (tracing_line (h_color h) cmd))
      ((logged Geteuid w)\<lparr>w_log := rev (banner_calls (w_enabled w) (h_color h)) @ w_log (logged Geteuid w),
        w_enabled := True\<rparr>)"
    and st: "spawn_stopped sy cmd w3 = Some (Ret child, w4)"
      "wait_until_stopped sy child w4 = Some (Ret (), w5)" "load_and_attach sy w5 = Some (Ret (), w6)"
      "set_target_tgid sy child w6 = Some (Ret (), w7)" "take_anchor sy w7 = Some (Ret anchor, w8)"
      "resume sy child w8 = Some (Ret (), w9)"
    and tail: "and_then (drain_ring_buffer sy (has_exited sy child)) (\<lambda>evs. report h sy anchor evs out k) w9 = Some (Ret u, w')"
    unfolding run_def by (auto simp: and_then_Ret)
  from tail obtain v' evs where d: "drain_ring_buffer sy (has_exited sy child) w9 = Some (Ret evs, v')"
    "report h sy anchor evs out k v' = Some (Ret u, w')" by (auto simp: and_then_Ret)
  obtain n where n: "w_log w5 = replicate (Suc n) (Waitpid child) @ w_log w4" "w_files w5 = w_files w4"
    using wait_calls [OF st(2)] by blast
  note steps = spawn_stopped_Ret [OF st(1)] load_and_attach_Ret [OF st(3)] set_target_tgid_Ret [OF st(4)]
    take_anchor_Ret [OF st(5)] resume_Ret [OF st(6)]
  have "w_log w9 = rev (run_prologue (w_enabled w) (h_color h) cmd child n) @ w_log w"
    using steps n w3 by (simp add: run_prologue_def del: replicate_Suc)
  moreover have "w_files w9 = w_files w" using steps n w3 by simp
  moreover have "w3 = forking_world h cmd w" by (simp add: w3 forking_world_def logged_def)
  ultimately show ?thesis using d steps by blast
qed

lemma banner_quiet: "list_all quiet (banner_calls b en)" "Set_target_map t \<notin> set (banner_calls b en)"
  by (auto simp: banner_calls_def list_all_iff)

definition trace_of :: "u64 \<times> u64 \<Rightarrow> trace_event list \<Rightarrow> trace_file" where
  "trace_of a evs = \<lparr>realtime_anchor_ns = fst a, monotonic_anchor_ns = snd a, events = evs\<rparr>"

lemma report_Ret:
  assumes "report h sy a evs out k v = Some (Ret u, w')"
  shows "\<exists>s asks. create_error (sy_files sy) out = None \<and> to_writer_pretty (sy_codec sy) (trace_of a evs) = (s, None)
    \<and> w_files w' = (w_files v)(out \<mapsto> s) \<and> list_all ask_call asks
    \<and> w_log w' = rev (map Println (print_chains (h_color h) (explain h (trace_of a evs) k))) @ asks @
        [Println [], Write_file out] @ w_log v"
proof -
  from assms obtain v0 where v0: "write_trace sy (trace_of a evs) out v = Some (Ret (), v0)"
    and w': "w' = (fold ask_world (explain_asks h (trace_of a evs) k) (logged (Println []) v0))\<lparr>w_log :=
      rev (map Println (print_chains (h_color h) (explain h (trace_of a evs) k))) @
      w_log (fold ask_world (explain_asks h (trace_of a evs) k) (logged (Println []) v0))\<rparr>"
    by (auto simp: report_def trace_of_def [symmetric] Let_def and_then_Ret)
  from v0 obtain s where s: "create_error (sy_files sy) out = None"
    "to_writer_pretty (sy_codec sy) (trace_of a evs) = (s, None)"
    and v1: "w_log v0 = Write_file out # w_log v" "w_files v0 = (w_files v)(out \<mapsto> s)"
    by (auto simp: write_trace_def write_to_def split: option.splits prod.splits sum.splits)
  obtain asks where "w_log (fold ask_world (explain_asks h (trace_of a evs) k) (logged (Println []) v0)) = asks @ w_log (logged (Println []) v0)"
    "list_all ask_call asks" "w_files (fold ask_world (explain_asks h (trace_of a evs) k) (logged (Println []) v0)) = w_files (logged (Println []) v0)"
    using asks_made [of "explain_asks h (trace_of a evs) k" "logged (Println []) v0"] by blast
  with s v1 w' show ?thesis by auto
qed

text \<open>Text of a drained event is valid UTF-8, as any \<open>String\<close> is.\<close>

definition text_ok :: "string \<Rightarrow> bool" where
  "text_ok s \<longleftrightarrow> (\<exists>bs. s = map byte_char bs \<and> utf8 bs)"

lemma text_ok_comm: "text_ok (comm (trace_event_from ev))"
  unfolding text_ok_def comm_trace_event_from from_utf8_lossy_def using utf8_lossy_bytes by blast

lemma drained_text_ok:
  assumes "drain_ring_buffer sy ss w = Some (Ret evs, w')" and "quiet_stop ss" and "popped (w_log w) = []"
  shows "list_all (\<lambda>e. text_ok (comm e)) evs"
proof -
  have "drain_loop sy ss [] w = Some (evs, w')"
    using assms(1) by (auto simp: drain_ring_buffer_def and_then_Ret)
  from drain_loop_popped [OF this] assms(2,3) have "evs = decoded (popped (w_log w'))" by simp
  then show ?thesis by (auto simp: decoded_filter list_all_iff text_ok_comm)
qed

lemma popped_prologue: "popped (rev (run_prologue b en cmd child n)) = []"
proof -
  have "list_all quiet (rev (map Println ls))" for ls by (auto simp: list_all_iff)
  moreover have "list_all quiet (replicate m (Waitpid child))" for m by (auto simp: list_all_iff)
  ultimately show ?thesis
    by (simp add: run_prologue_def TRACEPOINTS_def attach_calls_def popped_quiet banner_quiet del: replicate_Suc rev_map)
qed

lemma only_target_prologue: "only_target child (rev (run_prologue b en cmd child n))"
  by (auto simp: run_prologue_def only_target_def TRACEPOINTS_def attach_calls_def banner_quiet list_all_iff)

section \<open>Successful attachments\<close>

definition attach_prologue :: "bool \<Rightarrow> bool \<Rightarrow> u32 \<Rightarrow> u64 option \<Rightarrow> call list" where
  "attach_prologue decided en p duration_secs =
     [Geteuid] @ banner_calls decided en @ [Kill0 p, Setrlimit_memlock, Load_object] @
     concat (map attach_calls TRACEPOINTS) @
     [Set_target_map p, Clock_realtime, Clock_monotonic, Signal_sigint,
      Println (''whyslow: tracing pid '' @ dec (unat p) @ '', press Ctrl-C to stop and print results...'')] @
     (case duration_secs of None \<Rightarrow> [] | Some secs \<Rightarrow> [Instant_now])"

lemma deadline_after_Ret:
  "deadline_after sy ds w = Some (Ret deadline, w') \<Longrightarrow>
   w_log w' = (case ds of None \<Rightarrow> [] | Some secs \<Rightarrow> [Instant_now]) @ w_log w \<and> w_files w' = w_files w
   \<and> (deadline = None \<longleftrightarrow> ds = None)"
  by (auto simp: deadline_after_def Let_def split: option.splits if_splits)

lemma attach_stages:
  assumes "attach h sy p out k ds w = Some (Ret u, w')"
  shows "\<exists>deadline anchor v0 v evs v'.
    w_log v = rev (attach_prologue (w_enabled w) (h_color h) p ds) @ w_log w
    \<and> deadline_after sy ds v0 = Some (Ret deadline, v)
    \<and> drain_ring_buffer sy (attach_should_stop sy p deadline) v = Some (Ret evs, v')
    \<and> report h sy anchor evs out k v' = Some (Ret u, w')"
proof -
  from assms obtain anchor w2 w3 w4 w5 w6 v deadline evs v' where
    w2: "w2 = logged (Kill0 p)
      ((logged Geteuid w)\<lparr>w_log := rev (banner_calls (w_enabled w) (h_color h)) @ w_log (logged Geteuid w),
        w_enabled := True\<rparr>)"
    and st: "load_and_attach sy w2 = Some (Ret (), w3)" "set_target_tgid sy p w3 = Some (Ret (), w4)"
      "take_anchor sy w4 = Some (Ret anchor, w5)"
    and w6: "w6 = logged (Println (''whyslow: tracing pid '' @ dec (unat p) @
        '', press Ctrl-C to stop and print results...'')) (logged Signal_sigint w5)"
    and dl: "deadline_after sy ds w6 = Some (Ret deadline, v)"
    and d: "drain_ring_buffer sy (attach_should_stop sy p deadline) v = Some (Ret evs, v')"
      "report h sy anchor evs out k v' = Some (Ret u, w')"
    unfolding attach_def by (auto simp: and_then_Ret process_gone_def split: if_splits)
  note steps = load_and_attach_Ret [OF st(1)] set_target_tgid_Ret [OF st(2)] take_anchor_Ret [OF st(3)]
    deadline_after_Ret [OF dl]
  have "w_log v = rev (attach_prologue (w_enabled w) (h_color h) p ds) @ w_log w"
    using steps w2 w6 by (simp add: attach_prologue_def split: option.splits)
  with d dl show ?thesis by blast
qed

lemma popped_attach_prologue: "popped (rev (attach_prologue b en p ds)) = []"
  by (simp add: attach_prologue_def TRACEPOINTS_def attach_calls_def popped_quiet banner_quiet split: option.split)

lemma only_target_attach_prologue: "only_target p (rev (attach_prologue b en p ds))"
  by (auto simp: attach_prologue_def only_target_def TRACEPOINTS_def attach_calls_def banner_quiet list_all_iff
      split: option.splits)

section \<open>Tracing ends\<close>

lemma drain_returns:
  assumes "\<forall>w. sy_next sy w = ring_next K (w_log w)"
    and "\<forall>cs. faithful K cs \<longrightarrow> length (submitted K cs) \<le> N"
    and "quiet_stop ss" and "\<forall>w. M \<le> polls (w_log w) \<longrightarrow> fst (ss w)" and "faithful K (w_log w)"
  shows "\<exists>r w'. drain_ring_buffer sy ss w = Some (r, w')"
proof -
  obtain evs w' where "drain_loop sy ss [] w = Some (evs, w')"
    using session.drain_loop_returns [OF assms, of "[]"] by blast
  then show ?thesis
    by (simp add: drain_ring_buffer_def and_then_def open_map_def ok_or_def check_def split: option.split)
qed

lemma attach_stops:
  assumes "M \<le> polls (w_log w)"
    and "(\<forall>w. M \<le> polls (w_log w) \<longrightarrow> sy_sigint sy w) \<or>
      (\<exists>d. deadline = Some d \<and> (\<forall>w. M \<le> polls (w_log w) \<longrightarrow> d \<le> sy_now sy w)) \<or>
      (\<forall>w. M \<le> polls (w_log w) \<longrightarrow> sy_kill0 sy w p \<noteq> 0)"
  shows "fst (attach_should_stop sy p deadline w)"
  using assms
  by (auto simp: attach_should_stop_def load_stop_requested_def handle_sigint_def process_gone_def Let_def
      split: option.split)

lemma idle_kernel: "EVENTS (maps_after (\<lambda>cs. []) cs) = []"
proof (induction cs)
  case (Cons c cs)
  then show ?case by (cases c) (auto simp: write_target_def)
qed (simp add: bpf_init_def)

lemma idle_ring: "ring_next (\<lambda>cs. []) cs = None" "faithful (\<lambda>cs. []) cs \<Longrightarrow> popped cs = []"
proof -
  show none: "ring_next (\<lambda>cs. []) cs = None" for cs by (simp add: ring_next_def idle_kernel)
  show "faithful (\<lambda>cs. []) cs \<Longrightarrow> popped cs = []"
  proof (induction cs)
    case (Cons c cs)
    then show ?case by (cases c) (auto simp: none)
  qed simp
qed

section \<open>A run of the example machine\<close>

definition ex_machine :: host where
  "ex_machine = \<lparr>h_read_link = (\<lambda>p. None), h_localtime = (\<lambda>t. None), h_color = False\<rparr>"

definition ex_run_world :: world where
  "ex_run_world = \<lparr>w_log = map Println (print_chains False []) @
       [Println [], Write_file ''t.json'', Ring_empty, Waitpid_nohang 7, Ring_empty] @
       rev (run_prologue False False [''ls''] 7 0),
     w_files = [''t.json'' \<mapsto> ''{}''], w_stop = False, w_enabled = True\<rparr>"

lemma ex_drain:
  "drain_ring_buffer ex_sys (has_exited ex_sys 7) w =
     Some (Ret [], logged Ring_empty (logged (Waitpid_nohang 7) (logged Ring_empty w)))"
  by (simp add: drain_ring_buffer_def and_then_def open_map_def ok_or_def check_def ex_sys_def
      drain_loop.simps drain_items.simps has_exited_def)

text \<open>The other operations depend neither on the ring nor, but for the file, on the codec.\<close>

definition ex_ring :: "(world \<Rightarrow> u8 list option) \<Rightarrow> codec \<Rightarrow> sys" where
  "ex_ring nx cd = ex_sys\<lparr>sy_next := nx, sy_codec := cd\<rparr>"

lemma ex_sys_ring: "ex_sys = ex_ring (\<lambda>w. None) ex_codec"
  by (simp add: ex_ring_def ex_sys_def)

lemma and_then_step: "m w = Some (Ret x, w') \<Longrightarrow> and_then m f w = f x w'"
  by (simp add: and_then_def)

lemma ex_wait:
  "with_context s (wait_until_stopped (ex_ring nx cd) 7) w = Some (Ret (), logged (Waitpid 7) w)"
proof -
  have "sy_waitpid (ex_ring nx cd) w 7 = (7, 0x57F)" by (simp add: ex_ring_def ex_sys_def)
  then show ?thesis by (subst with_context_Ret, subst wait_until_stopped.simps) (simp add: wait_status)
qed

lemma ex_explain: "explain h \<lparr>realtime_anchor_ns = a, monotonic_anchor_ns = b, events = []\<rparr> k = []"
  by (simp add: explain_def explain_run_def typed_partition_def sort_by_def)

lemma ex_asks: "explain_asks h \<lparr>realtime_anchor_ns = a, monotonic_anchor_ns = b, events = []\<rparr> k = []"
  by (simp add: explain_asks_def explain_run_def typed_partition_def sort_by_def dev_names_new_def)

lemma ex_load:
  "load_and_attach (ex_ring nx cd) w =
     Some (Ret (), w\<lparr>w_log := rev ([Setrlimit_memlock, Load_object] @ concat (map attach_calls TRACEPOINTS)) @ w_log w\<rparr>)"
  by (simp add: load_and_attach_def bump_memlock_rlimit_def TRACEPOINTS_def attach_program_def attach_calls_def
      and_then_def call_def with_context_def check_def ok_or_def ex_ring_def ex_sys_def return_def logged_def)

lemma ex_ops:
  "spawn_stopped (ex_ring nx cd) [''ls''] w = Some (Ret 7, logged (Fork [''ls'']) w)"
  "require_root (ex_ring nx cd) w = Some (Ret (), logged Geteuid w)"
  "set_target_tgid (ex_ring nx cd) 7 w = Some (Ret (), logged (Set_target_map 7) w)"
  "take_anchor (ex_ring nx cd) w =
     Some (Ret (10000000000, 10000000000), logged Clock_monotonic (logged Clock_realtime w))"
  "with_context s (resume (ex_ring nx cd) 7) w = Some (Ret (), logged (Ptrace_detach 7) w)"
  "deadline_after (ex_ring nx cd) (Some 0) w = Some (Ret (Some 0), logged Instant_now w)"
  "process_gone (ex_ring nx cd) 7 w = (False, logged (Kill0 7) w)"
  by (simp_all add: spawn_stopped_def command_spawn_def pre_exec_def with_context_def require_root_def
      set_target_tgid_def open_map_def and_then_def call_def check_def ok_or_def take_anchor_def
      capture_anchor_def clock_ns_def resume_def deadline_after_def process_gone_def ex_ring_def ex_sys_def)

lemma ex_print:
  "println_all ls w = Some (Ret (), w\<lparr>w_log := rev (map Println ls) @ w_log w\<rparr>)"
  "println s w = Some (Ret (), logged (Println s) w)" "call c w = Some (Ret (), logged c w)"
  "banner h w = Some (Ret (), w\<lparr>w_log := rev (banner_calls (w_enabled w) (h_color h)) @ w_log w, w_enabled := True\<rparr>)"
  by simp_all

lemmas ex_steps = ex_wait [THEN and_then_step] ex_load [THEN and_then_step] ex_ops(1-6) [THEN and_then_step]
  ex_print [THEN and_then_step]

lemma ex_run_to_drain:
  "run ex_machine (ex_ring nx cd) [''ls''] ''t.json'' 3 ex_world =
     and_then (drain_ring_buffer (ex_ring nx cd) (has_exited (ex_ring nx cd) 7))
       (\<lambda>evs. report ex_machine (ex_ring nx cd) (10000000000, 10000000000) evs ''t.json'' 3)
       (ex_world\<lparr>w_log := rev (run_prologue False False [''ls''] 7 0), w_enabled := True\<rparr>)"
  unfolding run_def ex_steps by (simp add: run_prologue_def ex_world_def logged_def ex_machine_def)

lemma ex_attach_to_drain:
  "attach ex_machine (ex_ring nx cd) 7 ''t.json'' 3 (Some 0) ex_world =
     and_then (drain_ring_buffer (ex_ring nx cd) (attach_should_stop (ex_ring nx cd) 7 (Some 0)))
       (\<lambda>evs. report ex_machine (ex_ring nx cd) (10000000000, 10000000000) evs ''t.json'' 3)
       (ex_world\<lparr>w_log := rev (attach_prologue False False 7 (Some 0)), w_enabled := True\<rparr>)"
proof -
  have "and_then (\<lambda>w. case process_gone (ex_ring nx cd) 7 w of (gone, w) \<Rightarrow>
       Some (if gone then Fail [''no such process: '' @ dec (unat p)] else Ret (), w)) f w =
     f () (logged (Kill0 7) w)" for p :: u32 and w :: world and f :: "unit \<Rightarrow> unit comp"
    by (rule and_then_step) (simp add: ex_ops)
  then show ?thesis
    unfolding attach_def ex_steps by (simp add: attach_prologue_def ex_world_def logged_def ex_machine_def ex_steps)
qed

lemma ex_report:
  fixes tf :: trace_file
  assumes tf: "tf = \<lparr>realtime_anchor_ns = fst a, monotonic_anchor_ns = snd a, events = evs\<rparr>"
    and "to_writer_pretty cd tf = (s, None)"
  shows "report h (ex_ring nx cd) a evs ''t.json'' k w =
    (let v = fold ask_world (explain_asks h tf k)
       (w\<lparr>w_files := (w_files w)(''t.json'' \<mapsto> s), w_log := [Println [], Write_file ''t.json''] @ w_log w\<rparr>) in
     Some (Ret (), v\<lparr>w_log := rev (map Println (print_chains (h_color h) (explain h tf k))) @ w_log v\<rparr>))"
proof -
  have written: "with_context m (write_trace (ex_ring nx cd) tf ''t.json'') w =
    Some (Ret (), (logged (Write_file ''t.json'') w)\<lparr>w_files := (w_files w)(''t.json'' \<mapsto> s)\<rparr>)" for m w
    by (subst with_context_Ret) (simp add: write_trace_def write_to_def ex_ring_def ex_sys_def ex_files_def assms(2))
  have asks: "and_then (explained h t k) f w = f (explain h t k) (fold ask_world (explain_asks h t k) w)"
    for t w and f :: "string list list \<Rightarrow> unit comp" by (rule and_then_step) simp
  show ?thesis
    by (simp add: report_def Let_def tf [symmetric] and_then_step [OF written] asks ex_steps ex_print logged_def)
qed

lemma ex_run: "run ex_machine ex_sys [''ls''] ''t.json'' 3 ex_world = Some (Ret (), ex_run_world)"
proof -
  have "to_writer_pretty ex_codec \<lparr>realtime_anchor_ns = 10000000000, monotonic_anchor_ns = 10000000000, events = []\<rparr>
    = (''{}'', None)" by (simp add: ex_codec_def ex_trace_file_def)
  then show ?thesis
    unfolding ex_sys_ring ex_run_to_drain
    by (simp add: and_then_step [OF ex_drain [unfolded ex_sys_ring]] ex_report [OF refl] ex_explain ex_machine_def
        ex_run_world_def ex_world_def print_chains_def logged_def ex_asks)
qed

section \<open>The calls of an explanation\<close>

definition link_calls :: "ask list \<Rightarrow> call list" where
  "link_calls qs = concat (map (\<lambda>q. case q of Ask_link p \<Rightarrow> [Read_link p] | _ \<Rightarrow> []) qs)"

lemma link_calls_iff: "Read_link p \<in> set (link_calls qs) \<longleftrightarrow> Ask_link p \<in> set qs"
  by (induction qs) (auto simp: link_calls_def split: ask.splits)

lemma link_calls_distinct: "distinct (filter is_link qs) \<Longrightarrow> distinct (link_calls qs)"
proof (induction qs)
  case (Cons q qs)
  then show ?case using link_calls_iff [of _ qs] by (cases q) (auto simp: link_calls_def)
qed (simp add: link_calls_def)

lemma ask_call_cases: "ask_call c \<Longrightarrow> c = Init_color \<or> (\<exists>t. c = Localtime_r t) \<or> (\<exists>p. c = Read_link p)"
  by (cases c) simp_all

section \<open>Properties\<close>

text \<open>C6: However \<open>run\<close> ends, the child is only ever let go when all five programs are attached
  and the target map holds its pid: its first instruction cannot go unobserved.\<close>

theorem child_released_only_when_traced:
  assumes "run h sy cmd out k w = Some (r, w')" and "w_log w = []"
    and "w_log w' = post @ Ptrace_detach q # pre"
  shows "Set_target_map q \<in> set pre \<and> list_all (\<lambda>(p, c, n). Attach_tracepoint c n \<in> set pre) TRACEPOINTS"
proof -
  have "safe_world w" using assms(2) by (simp add: safe_world_def)
  then have "safe_world w'" using assms(1) by (rule tripleD [OF triple_run])
  then show ?thesis using assms(3) releases_split by (simp add: safe_world_def)
qed

theorem child_released_only_when_traced_witness:
  "Set_target_map 7 \<in> set (drop 1 (rev (run_prologue False False [''ls''] 7 0))) \<and>
   Attach_tracepoint ''sched'' ''sched_switch'' \<in> set (drop 1 (rev (run_prologue False False [''ls''] 7 0)))"
proof -
  have split: "w_log ex_run_world = (map Println (print_chains False []) @
      [Println [], Write_file ''t.json'', Ring_empty, Waitpid_nohang 7, Ring_empty]) @
      Ptrace_detach 7 # drop 1 (rev (run_prologue False False [''ls''] 7 0))"
    by (simp add: ex_run_world_def run_prologue_def)
  from child_released_only_when_traced [OF ex_run _ split] show ?thesis
    by (simp add: ex_world_def TRACEPOINTS_def)
qed

text \<open>C29: A successful \<open>run\<close> makes its calls in one order: the privilege check first, the child
  spawned stopped, programs attached in the order of the table, the target written, both
  clocks read, the child released, the ring drained with no other calls than ring reads,
  polls and exit checks, and only then the trace written and the report printed.\<close>

theorem run_call_order:
  assumes "run h sy cmd out k w = Some (Ret u, w')"
  shows "\<exists>child n drain asks lines. rev (w_log w') = rev (w_log w) @
      [Geteuid] @ banner_calls (w_enabled w) (h_color h) @ [Println (tracing_line (h_color h) cmd), Fork cmd] @
      replicate (Suc n) (Waitpid child) @ [Setrlimit_memlock, Load_object] @
      concat (map (\<lambda>(p, c, t). [Load_program p, Attach_tracepoint c t]) TRACEPOINTS) @
      [Set_target_map child, Clock_realtime, Clock_monotonic, Ptrace_detach child] @
      drain @ [Write_file out, Println []] @ asks @ map Println lines
    \<and> list_all (\<lambda>c. (\<exists>r. c = Ring_item r) \<or> c \<in> {Ring_empty, Poll, Waitpid_nohang child}) drain
    \<and> list_all ask_call asks"
proof -
  obtain child n a v evs v' where log: "w_log v = rev (run_prologue (w_enabled w) (h_color h) cmd child n) @ w_log w"
    and d: "drain_ring_buffer sy (has_exited sy child) v = Some (Ret evs, v')"
    and rep: "report h sy a evs out k v' = Some (Ret u, w')"
    using run_stages [OF assms] by blast
  let ?C = "\<lambda>c. (\<exists>r. c = Ring_item r) \<or> c \<in> {Ring_empty, Poll, Waitpid_nohang child}"
  have "only ?C (drain_ring_buffer sy (has_exited sy child))"
    by (rule only_drain_ring_buffer) (simp_all add: has_exited_def)
  from onlyD [OF this d] obtain new where new: "w_log v' = new @ w_log v" "list_all ?C new"
    by (auto simp: adds_def)
  have attach: "map attach_calls = map (\<lambda>(p, c, t). [Load_program p, Attach_tracepoint c t])"
    by (rule arg_cong [of _ _ map]) (simp add: fun_eq_iff attach_calls_def)
  obtain asks where "list_all ask_call asks"
    "w_log w' = rev (map Println (print_chains (h_color h) (explain h (trace_of a evs) k))) @ asks @
        [Println [], Write_file out] @ w_log v'" using report_Ret [OF rep] by blast
  then show ?thesis
    using log new unfolding run_prologue_def attach
    by (intro exI [of _ child] exI [of _ n] exI [of _ "rev new"] exI [of _ "rev asks"]
        exI [of _ "print_chains (h_color h) (explain h (trace_of a evs) k)"])
      (auto simp: rev_map list_all_rev simp del: replicate_Suc)
qed

theorem run_call_order_witness:
  "\<exists>child n drain asks lines. rev (w_log ex_run_world) =
      [Geteuid] @ banner_calls False False @ [Println (tracing_line False [''ls'']), Fork [''ls'']] @
      replicate (Suc n) (Waitpid child) @ [Setrlimit_memlock, Load_object] @
      concat (map (\<lambda>(p, c, t). [Load_program p, Attach_tracepoint c t]) TRACEPOINTS) @
      [Set_target_map child, Clock_realtime, Clock_monotonic, Ptrace_detach child] @
      drain @ [Write_file ''t.json'', Println []] @ asks @ map Println lines"
proof -
  have h: "h_color ex_machine = False" "w_log ex_world = []" "w_enabled ex_world = False"
    by (simp_all add: ex_machine_def ex_world_def)
  from run_call_order [OF ex_run] show ?thesis unfolding h by (simp only: rev.simps append_Nil) blast
qed

text \<open>Without root both tracing commands stop at the privilege check: one call is made, no
  child is spawned, nothing is loaded, printed or written.\<close>

lemma tracing_needs_root:
  assumes "sy_geteuid sy w \<noteq> 0"
  shows "\<exists>msg. run h sy cmd out k w = Some (Fail [msg], logged Geteuid w)
    \<and> attach h sy p out k d w = Some (Fail [msg], logged Geteuid w)"
  using assms by (simp add: run_def attach_def and_then_def require_root_def Let_def)

text \<open>C12: A saved trace explains itself as the traced run did: after a successful \<open>run\<close>, a later
  \<open>whyslow explain\<close> on the file it wrote, with the same links, time zone and colour decision,
  prints exactly the lines that ended the run, where the JSON codec reads back what it wrote
  and the file can be opened; between reading and printing it makes only the calls that an
  explanation makes.\<close>

theorem saved_trace_explains_alike:
  assumes "run h sy cmd path k w = Some (Ret u, w')" and "w_log w = []"
    and codec: "\<forall>tf s. list_all (\<lambda>e. text_ok (comm e)) (events tf) \<longrightarrow>
      to_writer_pretty (sy_codec sy) tf = (s, None) \<longrightarrow> from_reader (sy_codec sy) s = Inr tf"
    and "open_error (sy_files sy) path = None"
  shows "\<exists>lines asks old asks' w''. list_all ask_call asks \<and> list_all ask_call asks'
    \<and> w_log w' = rev (map Println lines) @ asks @ [Println [], Write_file path] @ old
    \<and> explain_cmd h sy path k (new_process w') = Some (Ret (), w'')
    \<and> w_log w'' = rev (map Println lines) @ asks' @ [Read_file path] @ w_log w'"
proof -
  obtain child n a v evs v' where log: "w_log v = rev (run_prologue (w_enabled w) (h_color h) cmd child n)"
    and d: "drain_ring_buffer sy (has_exited sy child) v = Some (Ret evs, v')"
    and rep: "report h sy a evs path k v' = Some (Ret u, w')"
    using run_stages [OF assms(1)] assms(2) by auto
  let ?tf = "trace_of a evs"
  obtain s asks where s: "to_writer_pretty (sy_codec sy) ?tf = (s, None)" "w_files w' path = Some s"
    and asks: "list_all ask_call asks" "w_log w' = rev (map Println (print_chains (h_color h) (explain h ?tf k))) @ asks @
        [Println [], Write_file path] @ w_log v'"
    using report_Ret [OF rep] by auto
  have "list_all (\<lambda>e. text_ok (comm e)) evs"
    using drained_text_ok [OF d quiet_stop_has_exited] log popped_prologue by simp
  then have "from_reader (sy_codec sy) s = Inr ?tf"
    using codec s(1) by (simp add: trace_of_def)
  moreover define x where "x = fold ask_world (explain_asks h ?tf k) (logged (Read_file path) (new_process w'))"
  ultimately have "explain_cmd h sy path k (new_process w') =
      Some (Ret (), x\<lparr>w_log := rev (map Println (print_chains (h_color h) (explain h ?tf k))) @ w_log x\<rparr>)"
    using assms(4) s(2)
    by (simp add: explain_cmd_def and_then_def with_context_def load_trace_def read_from_def explained_def new_process_def)
  moreover obtain asks' where "w_log x = asks' @ [Read_file path] @ w_log w'" "list_all ask_call asks'"
    using asks_made [of "explain_asks h ?tf k" "logged (Read_file path) (new_process w')"]
    by (auto simp: x_def new_process_def)
  ultimately show ?thesis using asks
    by (intro exI [of _ "print_chains (h_color h) (explain h ?tf k)"] exI [of _ asks] exI [of _ "w_log v'"]
        exI [of _ asks'] exI [of _ "x\<lparr>w_log := _\<rparr>"]) auto
qed

theorem saved_trace_explains_alike_witness:
  "\<exists>lines asks old asks' w''. list_all ask_call asks \<and> list_all ask_call asks'
    \<and> w_log ex_run_world = rev (map Println lines) @ asks @ [Println [], Write_file ''t.json''] @ old
    \<and> explain_cmd ex_machine ex_sys ''t.json'' 3 (new_process ex_run_world) = Some (Ret (), w'')
    \<and> w_log w'' = rev (map Println lines) @ asks' @ [Read_file ''t.json''] @ w_log ex_run_world"
proof (rule saved_trace_explains_alike [OF ex_run])
  show "w_log ex_world = []" by (simp add: ex_world_def)
  show "\<forall>tf s. list_all (\<lambda>e. text_ok (comm e)) (events tf) \<longrightarrow>
      to_writer_pretty (sy_codec ex_sys) tf = (s, None) \<longrightarrow> from_reader (sy_codec ex_sys) s = Inr tf"
    by (simp add: ex_sys_def ex_codec_def)
  show "open_error (sy_files ex_sys) ''t.json'' = None" by (simp add: ex_sys_def ex_files_def)
qed

text \<open>A codec that reads any file as the example trace, which has a stall and a block I/O.\<close>

definition one_codec :: codec where
  "one_codec = \<lparr>to_writer_pretty = (\<lambda>tf. (''{}'', None)), from_reader = (\<lambda>s. Inr ex_trace)\<rparr>"

lemma ex_explain_cmd:
  "\<exists>w'. explain_cmd ex_machine (ex_sys\<lparr>sy_codec := one_codec\<rparr>) ''t.json'' 3 (new_process ex_run_world) = Some (Ret (), w')"
  by (simp add: explain_cmd_def and_then_def with_context_def load_trace_def read_from_def explained_def one_codec_def
      new_process_def ex_run_world_def ex_sys_def ex_files_def ex_print del: println_all.simps println_all_Ret)

text \<open>C31: Explaining a saved trace needs no privilege and changes nothing: whatever it returns,
  files stay as they are, and its only calls are the read of the trace, the colour decision,
  conversions to local time, reads of sysfs links and the lines it prints; a link is read
  only for the device of a block I/O in the trace, and none is read twice.\<close>

theorem explain_only_reads:
  assumes "explain_cmd h sy path k w = Some (r, w')"
  shows "w_files w' = w_files w \<and> (\<exists>new. w_log w' = new @ w_log w
    \<and> list_all (\<lambda>c. c \<in> {Read_file path, Init_color} \<or> (\<exists>s. c = Println s) \<or> (\<exists>t. c = Localtime_r t)
        \<or> (\<exists>p. c = Read_link p)) new
    \<and> distinct (filter is_link_call new)
    \<and> (\<forall>p. Read_link p \<in> set new \<longrightarrow> (\<exists>tf io. read_from (sy_files sy) (sy_codec sy) path (w_files w) = Inr tf
        \<and> io \<in> set (events tf) \<and> event_type io = EVENT_BLOCK_IO
        \<and> p = dev_link (fst (unpack_block_key (key io))))))"
proof (cases "read_from (sy_files sy) (sy_codec sy) path (w_files w)")
  case (Inl e)
  then have "w' = logged (Read_file path) w"
    using assms by (auto simp: explain_cmd_def and_then_def with_context_def load_trace_def)
  then show ?thesis by (intro conjI exI [of _ "[Read_file path]"]) simp_all
next
  case (Inr tf)
  define x where "x = fold ask_world (explain_asks h tf k) (logged (Read_file path) w)"
  have w': "w' = x\<lparr>w_log := rev (map Println (print_chains (h_color h) (explain h tf k))) @ w_log x\<rparr>"
    using assms Inr by (simp add: explain_cmd_def and_then_def with_context_def load_trace_def explained_def x_def)
  obtain asks where asks: "w_log x = asks @ [Read_file path] @ w_log w" "list_all ask_call asks"
    "filter is_link_call asks = rev (link_calls (explain_asks h tf k))" "w_files x = w_files w"
    using asks_made [of "explain_asks h tf k" "logged (Read_file path) w"] by (auto simp: x_def link_calls_def)
  let ?new = "rev (map Println (print_chains (h_color h) (explain h tf k))) @ asks @ [Read_file path]"
  have links: "filter is_link_call ?new = rev (link_calls (explain_asks h tf k))"
    using asks(3) by (simp add: filter_empty_conv)
  have "list_all (\<lambda>c. c \<in> {Read_file path, Init_color} \<or> (\<exists>s. c = Println s) \<or> (\<exists>t. c = Localtime_r t)
        \<or> (\<exists>p. c = Read_link p)) ?new"
    using asks(2) ask_call_cases by (auto simp: list_all_iff)
  moreover have "distinct (filter is_link_call ?new)"
    unfolding links by (simp add: link_calls_distinct explain_asks_links(1))
  moreover have "\<exists>io\<in>set (events tf). event_type io = EVENT_BLOCK_IO \<and> p = dev_link (fst (unpack_block_key (key io)))"
    if "Read_link p \<in> set ?new" for p
  proof -
    have "Read_link p \<in> set (filter is_link_call ?new)" using that by (simp only: set_filter) simp
    then have "Ask_link p \<in> set (explain_asks h tf k)" unfolding links by (simp add: link_calls_iff)
    then show ?thesis by (rule explain_asks_links(2))
  qed
  ultimately show ?thesis using w' asks(1,4) Inr by (intro conjI exI [of _ ?new]) auto
qed

theorem explain_only_reads_witness:
  "\<exists>w' new. explain_cmd ex_machine (ex_sys\<lparr>sy_codec := one_codec\<rparr>) ''t.json'' 3 (new_process ex_run_world)
      = Some (Ret (), w')
    \<and> w_files w' = w_files ex_run_world \<and> w_log w' = new @ w_log ex_run_world \<and> distinct (filter is_link_call new)"
proof -
  obtain w' where w': "explain_cmd ex_machine (ex_sys\<lparr>sy_codec := one_codec\<rparr>) ''t.json'' 3 (new_process ex_run_world)
      = Some (Ret (), w')" using ex_explain_cmd by blast
  have "w_files (new_process w) = w_files w" "w_log (new_process w) = w_log w" for w
    by (simp_all add: new_process_def)
  with explain_only_reads [OF w'] w' show ?thesis by auto
qed

text \<open>C30: Explaining a missing trace exits with 1 and reports the file and the cause, in this
  order, on standard error, taking the colour decision first if it has not been taken.\<close>

theorem explain_missing_file:
  assumes "open_error (sy_files sy) path = None" and "w_files w path = None"
  shows "\<exists>w'. main h sy (Explain_cmd k path) w = Some (1, w') \<and> w_files w' = w_files w
    \<and> w_log w' = [Eprintln (''  '' @ dim (h_color h) ''caused by:'' @ '' '' @ enoent (sy_files sy)),
        Eprintln (bold_red (h_color h) ''error:'' @ '' '' @ ''reading trace from '' @ path)] @
        (if w_enabled w then [] else [Init_color]) @ [Read_file path] @ w_log w"
  using assms
  by (simp add: main_def try_main_def explain_cmd_def and_then_def with_context_def load_trace_def
      read_from_def error_lines_def Let_def)

theorem explain_missing_file_witness:
  "\<exists>w'. main ex_machine ex_sys (Explain_cmd 3 ''no.json'') ex_world = Some (1, w')"
  using explain_missing_file [of ex_sys "''no.json''" ex_world ex_machine 3]
  by (auto simp: ex_sys_def ex_files_def ex_world_def)

text \<open>C14: Tracing ends. Where the probes submit boundedly many records, the drain of \<open>run\<close>
  returns once the child is reaped after some number of polls, and that of \<open>attach\<close> once the
  signal arrives, the deadline passes or the process is gone.\<close>

theorem tracing_ends:
  assumes "\<forall>w. sy_next sy w = ring_next K (w_log w)"
    and "\<forall>cs. faithful K cs \<longrightarrow> length (submitted K cs) \<le> N" and "faithful K (w_log w)"
  shows "((\<forall>w. M \<le> polls (w_log w) \<longrightarrow> sy_waitpid_nohang sy w p = p) \<longrightarrow>
      (\<exists>r w'. drain_ring_buffer sy (has_exited sy p) w = Some (r, w')))
    \<and> ((\<forall>w. M \<le> polls (w_log w) \<longrightarrow> sy_sigint sy w) \<or>
       (\<exists>d. deadline = Some d \<and> (\<forall>w. M \<le> polls (w_log w) \<longrightarrow> d \<le> sy_now sy w)) \<or>
       (\<forall>w. M \<le> polls (w_log w) \<longrightarrow> sy_kill0 sy w p \<noteq> 0) \<longrightarrow>
      (\<exists>r w'. drain_ring_buffer sy (attach_should_stop sy p deadline) w = Some (r, w')))"
proof (intro conjI impI)
  assume "\<forall>w. M \<le> polls (w_log w) \<longrightarrow> sy_waitpid_nohang sy w p = p"
  then have "\<forall>w. M \<le> polls (w_log w) \<longrightarrow> fst (has_exited sy p w)" by (simp add: has_exited_def)
  from drain_returns [OF assms(1,2) quiet_stop_has_exited this assms(3)]
  show "\<exists>r w'. drain_ring_buffer sy (has_exited sy p) w = Some (r, w')" .
next
  assume "(\<forall>w. M \<le> polls (w_log w) \<longrightarrow> sy_sigint sy w) \<or>
       (\<exists>d. deadline = Some d \<and> (\<forall>w. M \<le> polls (w_log w) \<longrightarrow> d \<le> sy_now sy w)) \<or>
       (\<forall>w. M \<le> polls (w_log w) \<longrightarrow> sy_kill0 sy w p \<noteq> 0)"
  then have "\<forall>w. M \<le> polls (w_log w) \<longrightarrow> fst (attach_should_stop sy p deadline w)"
    by (intro allI impI) (rule attach_stops)
  from drain_returns [OF assms(1,2) quiet_stop_attach this assms(3)]
  show "\<exists>r w'. drain_ring_buffer sy (attach_should_stop sy p deadline) w = Some (r, w')" .
qed

theorem tracing_ends_witness:
  "\<exists>r w'. drain_ring_buffer ex_sys (attach_should_stop ex_sys 7 (Some 0)) ex_world = Some (r, w')"
proof -
  have "\<forall>cs. faithful (\<lambda>cs. []) cs \<longrightarrow> length (submitted (\<lambda>cs. []) cs) \<le> 0"
    using idle_ring(2) by (simp add: submitted_def idle_kernel)
  moreover have "\<forall>w. sy_next ex_sys w = ring_next (\<lambda>cs. []) (w_log w)" by (simp add: idle_ring ex_sys_def)
  ultimately show ?thesis
    using tracing_ends [of ex_sys "\<lambda>cs. []" 0 ex_world 0 7 "Some 0"]
    by (simp add: ex_sys_def ex_world_def)
qed

end
