(* ===== verification/Synthetic.thy ===== *)
theory Synthetic
  imports Rust_Prelude
begin

text \<open>
  The futex mutex of the reproducer (\<open>synthetic/src/main.rs\<close>) as a step system over any number
  of threads. The atomics are all on one word, whose accesses are totally ordered; the kernel's compare-and-sleep and wake-up are one step each, sleepers may wake
  spuriously, and which sleeper a wake-up picks is open.
\<close>

section \<open>The mutex\<close>

text \<open>
  Where a thread is: outside; at the three operations of \<open>lock\<close> (the first exchange, the
  swap of the loop, the wait); asleep in the kernel; holding the lock; at the two operations
  of \<open>unlock\<close>.
\<close>

datatype pc = Outside | Cas | Swap | Wait | Sleeping | Holding | Release | Wake

definition compare_exchange :: "u32 \<Rightarrow> u32 \<Rightarrow> u32 \<Rightarrow> bool \<times> u32" where
  "compare_exchange w expected new = (if w = expected then (True, new) else (False, w))"

text \<open>\<open>lock\<close> and \<open>unlock\<close>, one atomic operation at a time: the next place and the word.\<close>

fun lock_step :: "pc \<Rightarrow> u32 \<Rightarrow> (pc \<times> u32) option" where
  "lock_step Cas w = (case compare_exchange w 0 1 of
     (True, w') \<Rightarrow> Some (Holding, w') | (False, w') \<Rightarrow> Some (Swap, w'))"
| "lock_step Swap w = Some (if w = 0 then Holding else Wait, 2)"
| "lock_step Wait w = Some (if w = 2 then Sleeping else Swap, w)"
| "lock_step Sleeping w = Some (Swap, w)"
| "lock_step _ w = None"

fun unlock_step :: "pc \<Rightarrow> u32 \<Rightarrow> (pc \<times> u32) option" where
  "unlock_step Release w = Some (if w = 2 then Wake else Outside, 0)"
| "unlock_step _ w = None"

record mutex =
  word :: u32
  pcs :: "pc list"

text \<open>
  Steps: a thread calls \<open>lock\<close> or \<open>unlock\<close>, makes one step of either, or completes its
  \<open>futex_wake(word, 1)\<close>, which moves one sleeper, if there is any, back to its loop.
\<close>

datatype mstep = Call_lock nat | Step nat | Call_unlock nat | Wake_one nat "nat option"

fun mutex_step :: "mstep \<Rightarrow> mutex \<Rightarrow> mutex option" where
  "mutex_step (Call_lock t) m =
     (if t < length (pcs m) \<and> pcs m ! t = Outside then Some (m\<lparr>pcs := (pcs m)[t := Cas]\<rparr>) else None)"
| "mutex_step (Call_unlock t) m =
     (if t < length (pcs m) \<and> pcs m ! t = Holding then Some (m\<lparr>pcs := (pcs m)[t := Release]\<rparr>) else None)"
| "mutex_step (Step t) m =
     (if t < length (pcs m) then
        (case lock_step (pcs m ! t) (word m) of
           Some (p, w) \<Rightarrow> Some \<lparr>word = w, pcs = (pcs m)[t := p]\<rparr>
         | None \<Rightarrow>
             (case unlock_step (pcs m ! t) (word m) of
                Some (p, w) \<Rightarrow> Some \<lparr>word = w, pcs = (pcs m)[t := p]\<rparr>
              | None \<Rightarrow> None))
      else None)"
| "mutex_step (Wake_one t (Some s)) m =
     (if t < length (pcs m) \<and> pcs m ! t = Wake \<and> s < length (pcs m) \<and> pcs m ! s = Sleeping
      then Some (m\<lparr>pcs := (pcs m)[t := Outside, s := Swap]\<rparr>) else None)"
| "mutex_step (Wake_one t None) m =
     (if t < length (pcs m) \<and> pcs m ! t = Wake \<and> Sleeping \<notin> set (pcs m)
      then Some (m\<lparr>pcs := (pcs m)[t := Outside]\<rparr>) else None)"

definition mutex_new :: "nat \<Rightarrow> mutex" where
  "mutex_new n = \<lparr>word = 0, pcs = replicate n Outside\<rparr>"

inductive reached :: "nat \<Rightarrow> mutex \<Rightarrow> bool" for n where
  start: "reached n (mutex_new n)"
| step: "reached n m \<Longrightarrow> mutex_step st m = Some m' \<Longrightarrow> reached n m'"

section \<open>The mutex invariant\<close>

fun holds :: "pc \<Rightarrow> bool" where
  "holds Holding = True"
| "holds Release = True"
| "holds _ = False"

definition holders :: "pc list \<Rightarrow> nat" where
  "holders ps = length (filter holds ps)"

text \<open>
  The word says whether someone holds the lock, at most one thread does, and a sleeper is
  never forgotten: the word says so, or someone is about to wake it or to look again.
\<close>

definition mutex_inv :: "mutex \<Rightarrow> bool" where
  "mutex_inv m \<longleftrightarrow>
     word m \<in> {0, 1, 2} \<and> holders (pcs m) = (if word m = 0 then 0 else 1) \<and>
     (Sleeping \<in> set (pcs m) \<longrightarrow> word m = 2 \<or> Wake \<in> set (pcs m) \<or> Swap \<in> set (pcs m))"

lemma holds_iff: "holds p \<longleftrightarrow> p = Holding \<or> p = Release"
  by (cases p) auto

lemma holders_update:
  "t < length ps \<Longrightarrow>
   holders (ps[t := p]) + (if holds (ps ! t) then 1 else 0) = holders ps + (if holds p then 1 else 0)"
proof (induction ps arbitrary: t)
  case (Cons q ps)
  then show ?case by (cases t) (auto simp: holders_def)
qed simp

lemma holders_pos: "p \<in> set ps \<Longrightarrow> holds p \<Longrightarrow> 0 < holders ps"
  by (auto simp: holders_def filter_empty_conv)

lemma in_set_update:
  assumes "t < length ps"
  shows "q \<in> set (ps[t := p]) \<longleftrightarrow> q = p \<or> (\<exists>s<length ps. s \<noteq> t \<and> ps ! s = q)"
  using assms by (auto simp: in_set_conv_nth nth_list_update split: if_splits)

lemma in_set_nth: "q \<in> set ps \<longleftrightarrow> (\<exists>s<length ps. ps ! s = q)"
  by (auto simp: in_set_conv_nth)

text \<open>One thread moves from \<open>p\<close> to \<open>p'\<close>.\<close>

lemma mutex_inv_move:
  assumes inv: "mutex_inv m" and t: "t < length (pcs m)" "pcs m ! t = p"
    and w: "w \<in> {0, 1, 2}"
    and h: "(if word m = 0 then 0 else 1) + (if holds p' then 1 else 0)
      = (if w = 0 then 0 else 1) + (if holds p then 1 else (0::nat))"
    and sleep: "w = 2 \<or> p' \<in> {Wake, Swap} \<or> (w = word m \<or> word m \<noteq> 2) \<and> p' \<noteq> Sleeping \<and> p \<notin> {Wake, Swap}"
  shows "mutex_inv \<lparr>word = w, pcs = (pcs m)[t := p']\<rparr>"
proof -
  have "holders ((pcs m)[t := p']) = (if w = 0 then 0 else 1)"
    using holders_update [OF t(1), of p'] h inv t(2) by (auto simp: mutex_inv_def split: if_splits)
  moreover have "w = 2 \<or> Wake \<in> set ((pcs m)[t := p']) \<or> Swap \<in> set ((pcs m)[t := p'])"
    if "Sleeping \<in> set ((pcs m)[t := p'])"
  proof -
    have "Sleeping \<in> set (pcs m) \<or> p' = Sleeping"
      using that set_update_subset_insert [of "pcs m" t p'] by auto
    moreover have "q \<in> set ((pcs m)[t := p'])" if "q \<in> set (pcs m)" "q \<noteq> p" for q
      unfolding in_set_update [OF t(1)] using that t by (auto simp: in_set_nth)
    moreover have "p' \<in> set ((pcs m)[t := p'])" using t by (simp add: in_set_update)
    ultimately show ?thesis using sleep inv by (auto simp: mutex_inv_def)
  qed
  ultimately show ?thesis using w by (simp add: mutex_inv_def)
qed

lemma mutex_inv_call:
  assumes "mutex_inv m"
  shows "mutex_step (Call_lock t) m = Some m' \<Longrightarrow> mutex_inv m'" "mutex_step (Call_unlock t) m = Some m' \<Longrightarrow> mutex_inv m'"
proof -
  have word: "word m \<in> {0, 1, 2}" using assms by (simp add: mutex_inv_def)
  assume "mutex_step (Call_lock t) m = Some m'"
  then have "m' = \<lparr>word = word m, pcs = (pcs m)[t := Cas]\<rparr>" "t < length (pcs m)" "pcs m ! t = Outside"
    by (auto split: if_splits)
  then show "mutex_inv m'" using word by (auto intro!: mutex_inv_move [OF assms, of t Outside])
next
  have word: "word m \<in> {0, 1, 2}" using assms by (simp add: mutex_inv_def)
  assume "mutex_step (Call_unlock t) m = Some m'"
  then have "m' = \<lparr>word = word m, pcs = (pcs m)[t := Release]\<rparr>" "t < length (pcs m)" "pcs m ! t = Holding"
    by (auto split: if_splits)
  then show "mutex_inv m'" using word by (auto intro!: mutex_inv_move [OF assms, of t Holding])
qed

lemma mutex_inv_step:
  assumes inv: "mutex_inv m" and step: "mutex_step (Step t) m = Some m'"
  shows "mutex_inv m'"
proof -
  have word: "word m \<in> {0, 1, 2}" using inv by (simp add: mutex_inv_def)
  have t: "t < length (pcs m)" using step by (auto split: if_splits)
  have held: "word m \<noteq> 0" if "pcs m ! t = Release"
    using holders_pos [of "pcs m ! t" "pcs m"] nth_mem [OF t] that inv
    by (auto simp: mutex_inv_def split: if_splits)
  note move = mutex_inv_move [OF inv t refl]
  show ?thesis
  proof (cases "pcs m ! t")
    case Cas
    then have "m' = (if word m = 0 then \<lparr>word = 1, pcs = (pcs m)[t := Holding]\<rparr>
        else \<lparr>word = word m, pcs = (pcs m)[t := Swap]\<rparr>)"
      using step t by (auto simp: compare_exchange_def split: if_splits)
    then show ?thesis using word Cas by (auto intro!: move)
  next
    case Swap
    then have "m' = \<lparr>word = 2, pcs = (pcs m)[t := if word m = 0 then Holding else Wait]\<rparr>" using step t by auto
    then show ?thesis using word Swap by (auto intro!: move)
  next
    case Wait
    then have "m' = \<lparr>word = word m, pcs = (pcs m)[t := if word m = 2 then Sleeping else Swap]\<rparr>"
      using step t by auto
    then show ?thesis using word Wait by (auto intro!: move)
  next
    case Sleeping
    then have "m' = \<lparr>word = word m, pcs = (pcs m)[t := Swap]\<rparr>" using step t by auto
    then show ?thesis using word Sleeping by (auto intro!: move)
  next
    case Release
    then have "m' = \<lparr>word = 0, pcs = (pcs m)[t := if word m = 2 then Wake else Outside]\<rparr>" using step t by auto
    then show ?thesis using word Release held by (auto intro!: move)
  qed (use step t in auto)
qed

lemma mutex_inv_wake:
  assumes "mutex_inv m" and "mutex_step (Wake_one t s) m = Some m'"
  shows "mutex_inv m'"
proof (cases s)
  case None
  then have m': "m' = m\<lparr>pcs := (pcs m)[t := Outside]\<rparr>" "t < length (pcs m)" "pcs m ! t = Wake"
    "Sleeping \<notin> set (pcs m)" using assms(2) by (auto split: if_splits)
  then have "Sleeping \<notin> set (pcs m')" using set_update_subset_insert [of "pcs m" t Outside] by auto
  then show ?thesis
    using assms(1) m' holders_update [of t "pcs m" Outside] by (auto simp: mutex_inv_def)
next
  case (Some s')
  then have m': "m' = m\<lparr>pcs := (pcs m)[t := Outside, s' := Swap]\<rparr>" "t < length (pcs m)" "pcs m ! t = Wake"
    "s' < length (pcs m)" "pcs m ! s' = Sleeping" using assms(2) by (auto split: if_splits)
  then have "t \<noteq> s'" by auto
  then have "holders (pcs m') = holders (pcs m)"
    using m' holders_update [of t "pcs m" Outside] holders_update [of s' "(pcs m)[t := Outside]" Swap] by simp
  moreover have "Swap \<in> set (pcs m')" using m' by (simp add: in_set_update)
  ultimately show ?thesis using assms(1) m' by (auto simp: mutex_inv_def)
qed

lemma mutex_step_inv: "mutex_inv m \<Longrightarrow> mutex_step st m = Some m' \<Longrightarrow> mutex_inv m'"
  by (cases st) (blast intro: mutex_inv_call mutex_inv_step mutex_inv_wake)+

lemma reached_inv: "reached n m \<Longrightarrow> mutex_inv m"
proof (induction rule: reached.induct)
  case start
  show ?case by (auto simp: mutex_inv_def mutex_new_def holders_def)
next
  case (step m st m')
  then show ?case using mutex_step_inv by blast
qed

lemma mutex_step_length: "mutex_step st m = Some m' \<Longrightarrow> length (pcs m') = length (pcs m)"
  by (cases "(st, m)" rule: mutex_step.cases) (auto split: if_splits option.splits)

lemma reached_length: "reached n m \<Longrightarrow> length (pcs m) = n"
  by (induction rule: reached.induct) (auto simp: mutex_new_def mutex_step_length)

lemma holders_unique:
  assumes "holders ps \<le> 1" "s < length ps" "t < length ps" "holds (ps ! s)" "holds (ps ! t)"
  shows "s = t"
proof (rule ccontr)
  assume "s \<noteq> t"
  then have "0 < holders (ps[s := Outside])"
    using assms by (intro holders_pos [of "ps ! t"]) (auto simp: in_set_update)
  then show False using holders_update [of s ps Outside] assms by simp
qed

section \<open>Draining the mutex\<close>

text \<open>
  The steps that are owed once no more calls of \<open>lock\<close> are made: everything but those calls
  and a sleeper waking up on its own, so that a sleeper goes on only if some \<open>futex_wake\<close>
  wakes it.
\<close>

definition owed :: "mstep \<Rightarrow> mutex \<Rightarrow> bool" where
  "owed st m = (case st of Call_lock t \<Rightarrow> False | Step t \<Rightarrow> pcs m ! t \<noteq> Sleeping | _ \<Rightarrow> True)"

fun owed_steps :: "mstep list \<Rightarrow> mutex \<Rightarrow> mutex option" where
  "owed_steps [] m = Some m"
| "owed_steps (st # sts) m = (if owed st m then Option.bind (mutex_step st m) (owed_steps sts) else None)"

fun mutex_steps :: "mstep list \<Rightarrow> mutex \<Rightarrow> mutex option" where
  "mutex_steps [] m = Some m"
| "mutex_steps (st # sts) m = Option.bind (mutex_step st m) (mutex_steps sts)"

text \<open>
  No schedule of owed steps is long: each release is the last of its thread, and between two
  releases every step brings its thread closer to holding the lock, to sleep or out. A
  thread at \<open>Wait\<close> has further to go while the word is not 2, as it will look again.
\<close>

fun weight :: "u32 \<Rightarrow> pc \<Rightarrow> nat" where
  "weight w Outside = 0"
| "weight w Sleeping = 1"
| "weight w Release = 1"
| "weight w Holding = 2"
| "weight w Swap = 3"
| "weight w Wake = 3"
| "weight w Cas = 4"
| "weight w Wait = (if w = 2 then 2 else 4)"

definition to_release :: "pc \<Rightarrow> nat" where
  "to_release p = (if p \<in> {Outside, Wake} then 0 else 1)"

definition load :: "(pc \<Rightarrow> nat) \<Rightarrow> pc list \<Rightarrow> nat" where
  "load f ps = sum_list (map f ps)"

definition potential :: "mutex \<Rightarrow> nat" where
  "potential m = load to_release (pcs m) * (4 * length (pcs m) + 1) + load (weight (word m)) (pcs m)"

lemma load_update: "t < length ps \<Longrightarrow> load f (ps[t := p]) + f (ps ! t) = load f ps + f p"
proof (induction ps arbitrary: t)
  case (Cons q ps)
  then show ?case by (cases t) (auto simp: load_def)
qed simp

lemma load_mono: "(\<And>p. f p \<le> g p) \<Longrightarrow> load f ps \<le> load g ps"
  by (simp add: load_def sum_list_mono)

lemma weight_le: "weight w p \<le> 4"
  by (cases p) simp_all

lemma load_bound: "(\<And>p. f p \<le> b) \<Longrightarrow> load f ps \<le> b * length ps"
  by (induction ps) (auto simp: load_def intro: add_mono)

text \<open>One thread moves without releasing the lock.\<close>

lemma potential_move:
  assumes "t < length (pcs m)" and "to_release p = to_release (pcs m ! t)"
    and "weight w p < weight (word m) (pcs m ! t)" and "w = 2 \<or> (w = 2 \<longleftrightarrow> word m = 2)"
  shows "potential \<lparr>word = w, pcs = (pcs m)[t := p]\<rparr> < potential m"
proof -
  have "weight w q \<le> weight (word m) q" for q using assms(4) by (cases q) auto
  then have "load (weight w) ((pcs m)[t := q]) \<le> load (weight (word m)) ((pcs m)[t := q])" for q by (rule load_mono)
  from this [of Outside] show ?thesis
    using load_update [OF assms(1), of "weight w" p] load_update [OF assms(1), of "weight w" Outside]
      load_update [OF assms(1), of "weight (word m)" Outside] load_update [OF assms(1), of to_release p] assms(2,3)
    by (simp add: potential_def)
qed

lemma potential_release:
  assumes "t < length (pcs m)" and "pcs m ! t = Release" and "p \<in> {Outside, Wake}"
  shows "potential \<lparr>word = 0, pcs = (pcs m)[t := p]\<rparr> < potential m"
proof -
  have r: "load to_release (pcs m) = Suc (load to_release ((pcs m)[t := p]))"
    using load_update [OF assms(1), of to_release p] assms(2,3) by (auto simp: to_release_def)
  have "load (weight 0) ((pcs m)[t := p]) \<le> 4 * length (pcs m)"
    using load_bound [of "weight 0" 4 "(pcs m)[t := p]", OF weight_le] by simp
  then show ?thesis by (simp add: potential_def r)
qed

lemma owed_step_potential:
  assumes "owed st m" and "mutex_step st m = Some m'"
  shows "potential m' < potential m"
proof (cases st)
  case (Step t)
  then have t: "t < length (pcs m)" "pcs m ! t \<noteq> Sleeping"
    using assms by (auto simp: owed_def split: if_splits)
  with assms(2) Step show ?thesis
    by (cases "pcs m ! t")
      (auto simp: compare_exchange_def to_release_def split: if_splits
        intro!: potential_move potential_release)
next
  case (Call_unlock t)
  then have "m' = \<lparr>word = word m, pcs = (pcs m)[t := Release]\<rparr>" "t < length (pcs m)" "pcs m ! t = Holding"
    using assms(2) by (auto split: if_splits)
  then show ?thesis by (simp add: potential_move to_release_def)
next
  case (Wake_one t s)
  then have t: "t < length (pcs m)" "pcs m ! t = Wake" using assms(2) by (cases s; auto split: if_splits)+
  have out: "potential \<lparr>word = word m, pcs = (pcs m)[t := Outside]\<rparr> + 3 = potential m"
    using load_update [OF t(1), of to_release Outside] load_update [OF t(1), of "weight (word m)" Outside] t(2)
    by (simp add: potential_def to_release_def)
  show ?thesis
  proof (cases s)
    case None
    then have "m' = \<lparr>word = word m, pcs = (pcs m)[t := Outside]\<rparr>" using assms(2) Wake_one by (auto split: if_splits)
    with out show ?thesis by simp
  next
    case (Some u)
    then have m': "m' = \<lparr>word = word m, pcs = (pcs m)[t := Outside, u := Swap]\<rparr>" "u < length (pcs m)"
      "pcs m ! u = Sleeping" using assms(2) Wake_one by (auto split: if_splits)
    moreover from this t have "u \<noteq> t" by auto
    ultimately have "potential m' = potential \<lparr>word = word m, pcs = (pcs m)[t := Outside]\<rparr> + 2"
      using load_update [of u "(pcs m)[t := Outside]" to_release Swap]
        load_update [of u "(pcs m)[t := Outside]" "weight (word m)" Swap]
      by (simp add: potential_def to_release_def)
    with out show ?thesis by simp
  qed
qed (use assms(1) in \<open>simp add: owed_def\<close>)

lemma owed_steps_potential: "owed_steps sts m = Some m' \<Longrightarrow> length sts + potential m' \<le> potential m"
proof (induction sts arbitrary: m)
  case (Cons st sts)
  then obtain m1 where "owed st m" "mutex_step st m = Some m1" "owed_steps sts m1 = Some m'"
    by (auto simp: bind_eq_Some_conv split: if_splits)
  then show ?case using Cons.IH [of m1] owed_step_potential [of st m m1] by simp
qed simp

lemma potential_bound: "potential m \<le> length (pcs m) * (4 * length (pcs m) + 5)"
proof -
  have "load to_release (pcs m) \<le> length (pcs m)"
    using load_bound [of to_release 1 "pcs m"] by (simp add: to_release_def)
  then have "load to_release (pcs m) * (4 * length (pcs m) + 1) \<le> length (pcs m) * (4 * length (pcs m) + 1)"
    by (rule mult_right_mono) simp
  moreover have "load (weight (word m)) (pcs m) \<le> 4 * length (pcs m)" by (rule load_bound [OF weight_le])
  ultimately show ?thesis by (simp add: potential_def algebra_simps)
qed

text \<open>While someone holds the lock or owes a wake-up, that thread can go on.\<close>

lemma progress_owed:
  assumes "p \<in> set (pcs m)" and "p \<in> {Holding, Release, Wake}"
  shows "\<exists>st m'. owed st m \<and> mutex_step st m = Some m'"
proof -
  obtain t where t: "t < length (pcs m)" "pcs m ! t = p" using assms(1) by (auto simp: in_set_nth)
  consider "p = Holding" | "p = Release" | (idle) "p = Wake" "Sleeping \<notin> set (pcs m)"
    | (sleeper) s where "p = Wake" "s < length (pcs m)" "pcs m ! s = Sleeping"
    using assms(2) by (auto simp: in_set_nth)
  then show ?thesis
  proof cases
    case 1
    with t show ?thesis by (intro exI [of _ "Call_unlock t"]) (simp add: owed_def)
  next
    case 2
    with t show ?thesis by (intro exI [of _ "Step t"]) (simp add: owed_def)
  next
    case idle
    with t show ?thesis by (intro exI [of _ "Wake_one t None"]) (simp add: owed_def)
  next
    case sleeper
    with t show ?thesis by (intro exI [of _ "Wake_one t (Some s)"]) (simp add: owed_def)
  qed
qed

lemma progress_in:
  assumes "p \<in> set (pcs m)" and "p \<in> {Cas, Swap, Wait}"
  shows "\<exists>st m'. owed st m \<and> mutex_step st m = Some m'"
proof -
  obtain t where t: "t < length (pcs m)" "pcs m ! t = p" using assms(1) by (auto simp: in_set_nth)
  then show ?thesis
    using assms(2) by (intro exI [of _ "Step t"]) (auto simp: owed_def compare_exchange_def)
qed

lemma mutex_progress:
  assumes inv: "mutex_inv m" and busy: "\<not> set (pcs m) \<subseteq> {Outside}"
  shows "\<exists>st m'. owed st m \<and> mutex_step st m = Some m'"
proof (cases "\<exists>p\<in>set (pcs m). p \<in> {Holding, Release, Wake} \<or> p \<in> {Cas, Swap, Wait}")
  case True
  then show ?thesis using progress_owed progress_in by blast
next
  case False
  have "q = Outside \<or> q = Sleeping" if "q \<in> set (pcs m)" for q
    using that False by (cases q rule: pc.exhaust) auto
  with busy have "Sleeping \<in> set (pcs m)" by blast
  moreover have "holders (pcs m) = 0" using False by (auto simp: holders_def filter_empty_conv holds_iff)
  ultimately show ?thesis using inv False by (auto simp: mutex_inv_def split: if_splits)
qed

lemma drained_free: "mutex_inv m \<Longrightarrow> set (pcs m) \<subseteq> {Outside} \<Longrightarrow> word m = 0"
proof -
  assume inv: "mutex_inv m" and out: "set (pcs m) \<subseteq> {Outside}"
  have "holders (pcs m) = 0" using out by (auto simp: holders_def filter_empty_conv holds_iff)
  then show "word m = 0" using inv by (simp add: mutex_inv_def split: if_splits)
qed

lemma reached_owed: "reached n m \<Longrightarrow> owed_steps sts m = Some m' \<Longrightarrow> reached n m'"
  by (induction sts arbitrary: m) (auto simp: bind_eq_Some_conv split: if_splits intro: reached.step)

section \<open>Properties\<close>

text \<open>Two threads contend: thread 0 holds the lock, thread 1 is asleep on it.\<close>

definition ex_schedule :: "mstep list" where
  "ex_schedule = [Call_lock 0, Step 0, Call_lock 1, Step 1, Step 1, Step 1]"

definition ex_contended :: mutex where
  "ex_contended = \<lparr>word = 2, pcs = [Holding, Sleeping]\<rparr>"

lemma reached_steps: "reached n m \<Longrightarrow> mutex_steps sts m = Some m' \<Longrightarrow> reached n m'"
  by (induction sts arbitrary: m) (auto simp: bind_eq_Some_conv intro: reached.step)

lemma ex_contended_reached: "reached 2 ex_contended"
proof (rule reached_steps [OF reached.start])
  show "mutex_steps ex_schedule (mutex_new 2) = Some ex_contended"
    by (simp add: ex_schedule_def mutex_new_def ex_contended_def compare_exchange_def numeral_2_eq_2)
qed

text \<open>C7: The futex mutex excludes: in every reachable state of any number of threads at most one
  thread is past \<open>lock\<close> and before the swap of its \<open>unlock\<close>, and the word is zero exactly when
  there is none.\<close>

theorem mutex_excludes:
  assumes "reached n m"
  shows "word m \<in> {0, 1, 2} \<and> (word m = 0 \<longleftrightarrow> \<not> list_ex holds (pcs m))
    \<and> (s < n \<and> t < n \<and> holds (pcs m ! s) \<and> holds (pcs m ! t) \<longrightarrow> s = t)"
proof -
  have inv: "mutex_inv m" "length (pcs m) = n" using assms reached_inv reached_length by auto
  have "holders (pcs m) = 0 \<longleftrightarrow> \<not> list_ex holds (pcs m)"
    by (simp add: holders_def filter_empty_conv list_ex_iff)
  then show ?thesis
    using inv holders_unique [of "pcs m" s t] by (auto simp: mutex_inv_def split: if_splits)
qed

theorem mutex_excludes_witness: "word ex_contended = 0 \<longleftrightarrow> \<not> list_ex holds (pcs ex_contended)"
  using mutex_excludes [OF ex_contended_reached] by blast

text \<open>C13: No wake-up is lost: while a thread sleeps on the word, another thread that is awake
  holds the lock, is about to wake a sleeper, or is about to take another look at the word.\<close>

theorem mutex_no_lost_wakeup:
  assumes "reached n m" and "t < n" and "pcs m ! t = Sleeping"
  shows "\<exists>s<n. s \<noteq> t \<and> pcs m ! s \<in> {Holding, Release, Wake, Swap}"
proof -
  have inv: "mutex_inv m" and len: "length (pcs m) = n" using assms reached_inv reached_length by auto
  have "Sleeping \<in> set (pcs m)" using assms len by (auto simp: in_set_nth)
  then consider "word m = 2" | "Wake \<in> set (pcs m)" | "Swap \<in> set (pcs m)"
    using inv by (auto simp: mutex_inv_def)
  then have "\<exists>q\<in>set (pcs m). q \<in> {Holding, Release, Wake, Swap}"
  proof cases
    case 1
    then have "holders (pcs m) \<noteq> 0" using inv by (simp add: mutex_inv_def)
    then obtain q where "q \<in> set (pcs m)" "holds q" by (auto simp: holders_def filter_empty_conv)
    moreover from this(2) have "q \<in> {Holding, Release}" by (simp add: holds_iff)
    ultimately show ?thesis by blast
  qed blast+
  then obtain s where "s < n" "pcs m ! s \<in> {Holding, Release, Wake, Swap}" using len by (auto simp: in_set_nth)
  moreover from this assms(3) have "s \<noteq> t" by auto
  ultimately show ?thesis by blast
qed

theorem mutex_no_lost_wakeup_witness:
  "\<exists>s<2. s \<noteq> 1 \<and> pcs ex_contended ! s \<in> {Holding, Release, Wake, Swap}"
  using mutex_no_lost_wakeup [OF ex_contended_reached, of 1] by (simp add: ex_contended_def)

text \<open>C38: Every schedule drains the mutex. Once no thread calls \<open>lock\<close> any more, and with no sleeper
  waking up by itself, any sequence of steps of \<open>n\<close> threads ends after at most \<open>n (4 n + 5)\<close>
  of them, and it can only end with every thread out of \<open>lock\<close> and \<open>unlock\<close> and the lock free:
  nobody is left asleep.\<close>

theorem mutex_always_drains:
  assumes "reached n m" and "owed_steps sts m = Some m'"
  shows "length sts \<le> n * (4 * n + 5)
    \<and> ((\<forall>st. owed st m' \<longrightarrow> mutex_step st m' = None) \<longrightarrow> set (pcs m') \<subseteq> {Outside} \<and> word m' = 0)"
proof -
  have "length sts \<le> n * (4 * n + 5)"
    using owed_steps_potential [OF assms(2)] potential_bound [of m] reached_length [OF assms(1)] by simp
  moreover have inv: "mutex_inv m'" using reached_owed [OF assms] by (rule reached_inv)
  then have "\<forall>st. owed st m' \<longrightarrow> mutex_step st m' = None \<Longrightarrow> set (pcs m') \<subseteq> {Outside}"
    using mutex_progress [OF inv] by fastforce
  ultimately show ?thesis using drained_free [OF inv] by blast
qed

theorem mutex_always_drains_witness:
  "\<exists>m'. owed_steps [Call_unlock 0, Step 0, Wake_one 0 (Some 1), Step 1, Call_unlock 1, Step 1, Wake_one 1 None]
     ex_contended = Some m' \<and> (7::nat) \<le> 2 * (4 * 2 + 5) \<and> set (pcs m') \<subseteq> {Outside} \<and> word m' = 0"
proof -
  let ?m = "\<lparr>word = 0, pcs = [Outside, Outside]\<rparr>"
  have run: "owed_steps [Call_unlock 0, Step 0, Wake_one 0 (Some 1), Step 1, Call_unlock 1, Step 1, Wake_one 1 None]
     ex_contended = Some ?m"
    by (simp add: ex_contended_def owed_def compare_exchange_def)
  have "owed st ?m \<longrightarrow> mutex_step st ?m = None" for st
    by (cases "(st, ?m)" rule: mutex_step.cases) (auto simp: owed_def nth_Cons' split: if_splits)
  with mutex_always_drains [OF ex_contended_reached run] run show ?thesis by simp
qed

end
