(* ===== verification/Reproducer.thy ===== *)
theory Reproducer
  imports Synthetic Rust_Text
begin

text \<open>
  The rest of the reproducer (\<open>synthetic/src/main.rs\<close>): the aligned buffer, the repeated
  direct read, and \<open>main\<close> with its two threads as a step system over the mutex of
  \<open>Synthetic\<close>, thread 0 being the holder and thread 1 the waiter. The properties say that it
  is the ground truth it is meant to be: a wait of the waiter is for the lock the holder
  holds, and it gets the lock only after the holder's reads.
\<close>

unbundle bit_operations_syntax

section \<open>The direct read\<close>

definition FILE_SIZE :: u64 where "FILE_SIZE = 64 * 1024"
definition ALIGN :: u64 where "ALIGN = 4096"
definition READ_REPEATS :: nat where "READ_REPEATS = 64"

text \<open>
  \<open>Layout::from_size_align\<close>: the alignment is a power of two and the size, rounded up to it,
  fits \<open>isize\<close>.
\<close>

record layout =
  l_size :: u64
  l_align :: u64

definition is_power_of_two :: "u64 \<Rightarrow> bool" where
  "is_power_of_two a \<longleftrightarrow> a \<noteq> 0 \<and> a AND (a - 1) = 0"

definition from_size_align :: "u64 \<Rightarrow> u64 \<Rightarrow> layout option" where
  "from_size_align sz align =
     (if is_power_of_two align \<and> unat sz + unat align \<le> 2 ^ 63 then Some \<lparr>l_size = sz, l_align = align\<rparr>
      else None)"

datatype ('e, 'a) step_result = Done 'a | Error 'e | Panicked

text \<open>\<open>AlignedBuf::new\<close> panics on a bad layout and on a null pointer; it gives the buffer.\<close>

record aligned_buf =
  ptr :: u64
  buf_layout :: layout

definition aligned_buf_new :: "(layout \<Rightarrow> u64) \<Rightarrow> u64 \<Rightarrow> (string, aligned_buf) step_result" where
  "aligned_buf_new alloc sz =
     (case from_size_align sz ALIGN of
        None \<Rightarrow> Panicked
      | Some l \<Rightarrow> (let p = alloc l in if p = 0 then Panicked else Done \<lparr>ptr = p, buf_layout = l\<rparr>))"

definition as_mut_slice :: "aligned_buf \<Rightarrow> u64 \<times> u64" where
  "as_mut_slice b = (ptr b, l_size (buf_layout b))"

definition aligned_buf_drop :: "aligned_buf \<Rightarrow> u64 \<times> layout" where
  "aligned_buf_drop b = (ptr b, buf_layout b)"

text \<open>
  The loop; \<open>pread i\<close> is what the read number \<open>i\<close> returns. The result carries the number of
  reads made.
\<close>

function read_loop :: "(nat \<Rightarrow> i64) \<Rightarrow> (nat \<Rightarrow> string) \<Rightarrow> nat \<Rightarrow> (string, unit) step_result \<times> nat" where
  "read_loop pread errno i =
     (if i < READ_REPEATS then
        (let n = pread i in
         if sint n < 0 then (Error (''O_DIRECT pread failed: '' @ errno i), i + 1)
         else read_loop pread errno (i + 1))
      else (Done (), i))"
  by pat_completeness auto
termination
  by (relation "measure (\<lambda>(pread, errno, i). READ_REPEATS - i)") auto

declare read_loop.simps [simp del]

definition cold_direct_read ::
  "string option \<Rightarrow> (layout \<Rightarrow> u64) \<Rightarrow> (nat \<Rightarrow> i64) \<Rightarrow> (nat \<Rightarrow> string) \<Rightarrow> (string, unit) step_result \<times> nat" where
  "cold_direct_read open_error alloc pread errno =
     (case open_error of
        Some e \<Rightarrow> (Error e, 0)
      | None \<Rightarrow>
          (case aligned_buf_new alloc FILE_SIZE of
             Done buf \<Rightarrow> read_loop pread errno 0
           | Error e \<Rightarrow> (Error e, 0)
           | Panicked \<Rightarrow> (Panicked, 0)))"

text \<open>The checks before anything runs: the own executable must be found and large enough.\<close>

definition synth_check :: "string + string \<Rightarrow> (string \<Rightarrow> string + u64) \<Rightarrow> (string, string) step_result" where
  "synth_check current_exe metadata_len =
     (case current_exe of
        Inl e \<Rightarrow> Error e
      | Inr path \<Rightarrow>
          (case metadata_len path of
             Inl e \<Rightarrow> Error e
           | Inr len \<Rightarrow> if FILE_SIZE \<le> len then Done path else Panicked))"

section \<open>The program\<close>

text \<open>
  The holder stores its tid, locks, raises the flag, reads, unlocks; if the read fails,
  \<open>expect\<close> panics with the lock held. The waiter stores its tid, locks, unlocks. The main
  thread spawns the holder, polls the flag, spawns the waiter and joins both, panicking when
  the holder did.
\<close>

datatype hstage = H_unborn | H_store | H_lock | H_flag | H_read | H_unlock | H_done | H_panic
datatype wstage = W_unborn | W_store | W_lock | W_locked | W_unlock | W_done
datatype mstage = M_spawn | M_poll | M_join_holder | M_join_waiter | M_print | M_panic

record synth =
  mtx :: mutex
  holder_acquired :: bool
  holder_tid :: u32
  waiter_tid :: u32
  hst :: hstage
  wst :: wstage
  mst :: mstage
  reads :: nat

definition synth_init :: synth where
  "synth_init = \<lparr>mtx = mutex_new 2, holder_acquired = False, holder_tid = 0, waiter_tid = 0,
     hst = H_unborn, wst = W_unborn, mst = M_spawn, reads = 0\<rparr>"

text \<open>The steps of thread \<open>t\<close> inside \<open>lock\<close> or \<open>unlock\<close>.\<close>

definition by_thread :: "nat \<Rightarrow> mstep \<Rightarrow> bool" where
  "by_thread t st \<longleftrightarrow> (case st of Step t' \<Rightarrow> t' = t | Wake_one t' s \<Rightarrow> t' = t | _ \<Rightarrow> False)"

inductive synth_step :: "synth \<Rightarrow> synth \<Rightarrow> bool" where
  holder_store: "hst s = H_store \<Longrightarrow> mutex_step (Call_lock 0) (mtx s) = Some m \<Longrightarrow>
    synth_step s (s\<lparr>holder_tid := tid, mtx := m, hst := H_lock\<rparr>)"
| holder_lock: "hst s = H_lock \<Longrightarrow> by_thread 0 st \<Longrightarrow> mutex_step st (mtx s) = Some m \<Longrightarrow>
    synth_step s (s\<lparr>mtx := m, hst := (if pcs m ! 0 = Holding then H_flag else H_lock)\<rparr>)"
| holder_flag: "hst s = H_flag \<Longrightarrow> synth_step s (s\<lparr>holder_acquired := True, hst := H_read\<rparr>)"
| holder_read: "hst s = H_read \<Longrightarrow> cold_direct_read oe alloc pread errno = (Done (), n) \<Longrightarrow>
    mutex_step (Call_unlock 0) (mtx s) = Some m \<Longrightarrow>
    synth_step s (s\<lparr>reads := n, mtx := m, hst := H_unlock\<rparr>)"
| holder_fail: "hst s = H_read \<Longrightarrow> cold_direct_read oe alloc pread errno = (r, n) \<Longrightarrow> r \<noteq> Done () \<Longrightarrow>
    synth_step s (s\<lparr>reads := n, hst := H_panic\<rparr>)"
| holder_unlock: "hst s = H_unlock \<Longrightarrow> by_thread 0 st \<Longrightarrow> mutex_step st (mtx s) = Some m \<Longrightarrow>
    synth_step s (s\<lparr>mtx := m, hst := (if pcs m ! 0 = Outside then H_done else H_unlock)\<rparr>)"
| waiter_store: "wst s = W_store \<Longrightarrow> mutex_step (Call_lock 1) (mtx s) = Some m \<Longrightarrow>
    synth_step s (s\<lparr>waiter_tid := tid, mtx := m, wst := W_lock\<rparr>)"
| waiter_lock: "wst s = W_lock \<Longrightarrow> by_thread 1 st \<Longrightarrow> mutex_step st (mtx s) = Some m \<Longrightarrow>
    synth_step s (s\<lparr>mtx := m, wst := (if pcs m ! 1 = Holding then W_locked else W_lock)\<rparr>)"
| waiter_locked: "wst s = W_locked \<Longrightarrow> mutex_step (Call_unlock 1) (mtx s) = Some m \<Longrightarrow>
    synth_step s (s\<lparr>mtx := m, wst := W_unlock\<rparr>)"
| waiter_unlock: "wst s = W_unlock \<Longrightarrow> by_thread 1 st \<Longrightarrow> mutex_step st (mtx s) = Some m \<Longrightarrow>
    synth_step s (s\<lparr>mtx := m, wst := (if pcs m ! 1 = Outside then W_done else W_unlock)\<rparr>)"
| main_spawn: "mst s = M_spawn \<Longrightarrow> synth_step s (s\<lparr>hst := H_store, mst := M_poll\<rparr>)"
| main_poll: "mst s = M_poll \<Longrightarrow>
    synth_step s (if holder_acquired s then s\<lparr>wst := W_store, mst := M_join_holder\<rparr> else s)"
| main_join_holder: "mst s = M_join_holder \<Longrightarrow> hst s = H_done \<Longrightarrow> synth_step s (s\<lparr>mst := M_join_waiter\<rparr>)"
| main_panic: "mst s = M_join_holder \<Longrightarrow> hst s = H_panic \<Longrightarrow> synth_step s (s\<lparr>mst := M_panic\<rparr>)"
| main_join_waiter: "mst s = M_join_waiter \<Longrightarrow> wst s = W_done \<Longrightarrow> synth_step s (s\<lparr>mst := M_print\<rparr>)"

inductive synth_reached :: "synth \<Rightarrow> bool" where
  init: "synth_reached synth_init"
| step: "synth_reached s \<Longrightarrow> synth_step s s' \<Longrightarrow> synth_reached s'"

definition synth_done_line :: "u32 \<Rightarrow> synth \<Rightarrow> string" where
  "synth_done_line process s = ''SYNTHETIC_DONE pid='' @ dec (unat process) @ '' holder_tid='' @
     dec (unat (holder_tid s)) @ '' waiter_tid='' @ dec (unat (waiter_tid s))"

section \<open>The invariant\<close>

definition locking :: "pc \<Rightarrow> bool" where
  "locking p \<longleftrightarrow> p \<in> {Cas, Swap, Wait, Sleeping}"

text \<open>Where in the mutex a thread is, by the stage of its own code.\<close>

fun holder_at :: "hstage \<Rightarrow> pc \<Rightarrow> bool" where
  "holder_at H_lock p = locking p"
| "holder_at H_flag p = (p = Holding)"
| "holder_at H_read p = (p = Holding)"
| "holder_at H_panic p = (p = Holding)"
| "holder_at H_unlock p = (p \<in> {Release, Wake})"
| "holder_at _ p = (p = Outside)"

fun waiter_at :: "wstage \<Rightarrow> pc \<Rightarrow> bool" where
  "waiter_at W_lock p = locking p"
| "waiter_at W_locked p = (p = Holding)"
| "waiter_at W_unlock p = (p \<in> {Release, Wake})"
| "waiter_at _ p = (p = Outside)"

definition synth_inv :: "synth \<Rightarrow> bool" where
  "synth_inv s \<longleftrightarrow> reached 2 (mtx s)
     \<and> holder_at (hst s) (pcs (mtx s) ! 0) \<and> waiter_at (wst s) (pcs (mtx s) ! 1)
     \<and> holder_acquired s = (hst s \<in> {H_read, H_unlock, H_done, H_panic})
     \<and> (wst s \<noteq> W_unborn \<longrightarrow> holder_acquired s)
     \<and> (mst s = M_spawn \<longrightarrow> hst s = H_unborn) \<and> (mst s \<in> {M_spawn, M_poll} \<longrightarrow> wst s = W_unborn)
     \<and> (hst s \<in> {H_unlock, H_done} \<longrightarrow> reads s = READ_REPEATS)
     \<and> (mst s \<in> {M_join_waiter, M_print} \<longrightarrow> hst s = H_done) \<and> (mst s = M_print \<longrightarrow> wst s = W_done)"

lemma read_loop_done:
  "i \<le> READ_REPEATS \<Longrightarrow> read_loop pread errno i = (Done (), n) \<Longrightarrow> n = READ_REPEATS"
proof (induction pread errno i rule: read_loop.induct)
  case (1 pread errno i)
  show ?case
  proof (cases "i < READ_REPEATS")
    case True
    then have "\<not> sint (pread i) < 0 \<and> read_loop pread errno (i + 1) = (Done (), n)"
      using 1(3) by (subst (asm) read_loop.simps) (auto simp: Let_def split: if_splits)
    with True 1(1) [OF True refl] show ?thesis by simp
  next
    case False
    then show ?thesis using 1(2,3) by (subst (asm) read_loop.simps) auto
  qed
qed

lemma cold_direct_read_done:
  "cold_direct_read oe alloc pread errno = (Done (), n) \<Longrightarrow> n = READ_REPEATS"
  using read_loop_done [of 0]
  by (auto simp: cold_direct_read_def split: option.splits step_result.splits)

text \<open>A step of one thread inside the mutex, seen by itself and by the other thread.\<close>

lemma step_at:
  assumes "mutex_step (Step t) m = Some m'"
  shows "\<exists>p w. (lock_step (pcs m ! t) (word m) = Some (p, w) \<or> unlock_step (pcs m ! t) (word m) = Some (p, w))
    \<and> pcs m' ! t = p"
  using assms by (auto split: if_splits option.splits)

lemma wake_at:
  assumes "mutex_step (Wake_one t s) m = Some m'"
  shows "pcs m ! t = Wake \<and> pcs m' ! t = Outside"
  using assms by (cases s) (auto split: if_splits simp: nth_list_update)

lemma own_step:
  assumes "by_thread t st" and "mutex_step st m = Some m'"
  shows "locking (pcs m ! t) \<Longrightarrow> locking (pcs m' ! t) \<or> pcs m' ! t = Holding"
    and "pcs m ! t \<in> {Release, Wake} \<Longrightarrow> pcs m' ! t \<in> {Wake, Outside}"
proof -
  consider (step) "st = Step t" | (wake) s where "st = Wake_one t s"
    using assms(1) by (auto simp: by_thread_def split: mstep.splits)
  then have "(locking (pcs m ! t) \<longrightarrow> locking (pcs m' ! t) \<or> pcs m' ! t = Holding)
    \<and> (pcs m ! t \<in> {Release, Wake} \<longrightarrow> pcs m' ! t \<in> {Wake, Outside})"
  proof cases
    case step
    from step_at [OF assms(2) [unfolded step]] show ?thesis
      by (cases "pcs m ! t") (auto simp: locking_def compare_exchange_def split: if_splits)
  next
    case wake
    from wake_at [OF assms(2) [unfolded wake]] show ?thesis by (simp add: locking_def)
  qed
  then show "locking (pcs m ! t) \<Longrightarrow> locking (pcs m' ! t) \<or> pcs m' ! t = Holding"
    "pcs m ! t \<in> {Release, Wake} \<Longrightarrow> pcs m' ! t \<in> {Wake, Outside}" by blast+
qed

lemma other_step:
  assumes "by_thread t st" and "mutex_step st m = Some m'" and "u \<noteq> t"
  shows "pcs m' ! u = pcs m ! u \<or> pcs m ! u = Sleeping \<and> pcs m' ! u = Swap"
  using assms
  by (cases "(st, m)" rule: mutex_step.cases)
    (auto simp: by_thread_def nth_list_update split: if_splits option.splits)

lemma other_stays:
  assumes "by_thread t st" and "mutex_step st m = Some m'" and "u \<noteq> t"
  shows "holder_at hs (pcs m ! u) \<Longrightarrow> holder_at hs (pcs m' ! u)"
    and "waiter_at ws (pcs m ! u) \<Longrightarrow> waiter_at ws (pcs m' ! u)"
proof -
  note u = other_step [OF assms]
  show "holder_at hs (pcs m ! u) \<Longrightarrow> holder_at hs (pcs m' ! u)"
    using u by (cases hs) (auto simp: locking_def)
  show "waiter_at ws (pcs m ! u) \<Longrightarrow> waiter_at ws (pcs m' ! u)"
    using u by (cases ws) (auto simp: locking_def)
qed

lemma call_steps:
  "mutex_step (Call_lock t) m = Some m' \<Longrightarrow> t < length (pcs m) \<and> pcs m' = (pcs m)[t := Cas]"
  "mutex_step (Call_unlock t) m = Some m' \<Longrightarrow> t < length (pcs m) \<and> pcs m' = (pcs m)[t := Release]"
  by (auto split: if_splits)

declare mutex_step.simps [simp del]

lemma synth_reached_mutex: "synth_inv s \<Longrightarrow> mutex_step st (mtx s) = Some m \<Longrightarrow> reached 2 m"
  by (rule reached.step [of 2 "mtx s" st]) (simp_all add: synth_inv_def)

lemma synth_step_inv:
  assumes "synth_step s s'" and "synth_inv s"
  shows "synth_inv s'"
  using assms
proof (induction rule: synth_step.induct)
  case (holder_store s m t)
  note m = call_steps(1) [OF holder_store(2)]
  then show ?case
    using holder_store synth_reached_mutex [OF holder_store(3,2)] by (auto simp: synth_inv_def locking_def)
next
  case (holder_lock s st m)
  note own = own_step(1) [OF holder_lock(2,3)] and other = other_stays(2) [OF holder_lock(2,3)]
  show ?case
    using holder_lock synth_reached_mutex [OF holder_lock(4,3)] own other by (auto simp: synth_inv_def)
next
  case (holder_unlock s st m)
  note own = own_step(2) [OF holder_unlock(2,3)] and other = other_stays(2) [OF holder_unlock(2,3)]
  show ?case
    using holder_unlock synth_reached_mutex [OF holder_unlock(4,3)] own other by (auto simp: synth_inv_def)
next
  case (holder_read s oe alloc pread errno n m)
  note m = call_steps(2) [OF holder_read(3)]
  then show ?case
    using holder_read synth_reached_mutex [OF holder_read(4,3)] cold_direct_read_done [OF holder_read(2)]
    by (auto simp: synth_inv_def)
next
  case (waiter_store s m t)
  note m = call_steps(1) [OF waiter_store(2)]
  then show ?case
    using waiter_store synth_reached_mutex [OF waiter_store(3,2)] by (auto simp: synth_inv_def locking_def)
next
  case (waiter_lock s st m)
  note own = own_step(1) [OF waiter_lock(2,3)] and other = other_stays(1) [OF waiter_lock(2,3)]
  show ?case
    using waiter_lock synth_reached_mutex [OF waiter_lock(4,3)] own other by (auto simp: synth_inv_def)
next
  case (waiter_locked s m)
  note m = call_steps(2) [OF waiter_locked(2)]
  then show ?case
    using waiter_locked synth_reached_mutex [OF waiter_locked(3,2)] by (auto simp: synth_inv_def)
next
  case (waiter_unlock s st m)
  note own = own_step(2) [OF waiter_unlock(2,3)] and other = other_stays(1) [OF waiter_unlock(2,3)]
  show ?case
    using waiter_unlock synth_reached_mutex [OF waiter_unlock(4,3)] own other by (auto simp: synth_inv_def)
qed (auto simp: synth_inv_def)

lemma synth_reached_inv: "synth_reached s \<Longrightarrow> synth_inv s"
proof (induction rule: synth_reached.induct)
  case init
  show ?case by (simp add: synth_inv_def synth_init_def reached.start) (simp add: mutex_new_def numeral_2_eq_2)
next
  case (step s s')
  then show ?case using synth_step_inv by blast
qed

lemma read_loop_ok:
  "k \<le> READ_REPEATS \<Longrightarrow> \<forall>i. k \<le> i \<and> i < READ_REPEATS \<longrightarrow> 0 \<le> sint (pread i) \<Longrightarrow>
   read_loop pread errno k = (Done (), READ_REPEATS)"
proof (induction "READ_REPEATS - k" arbitrary: k)
  case 0
  then show ?case by (simp add: read_loop.simps)
next
  case (Suc n)
  then have "k < READ_REPEATS" "0 \<le> sint (pread k)" by auto
  moreover have "read_loop pread errno (k + 1) = (Done (), READ_REPEATS)"
    using Suc.prems Suc.hyps(2) by (intro Suc.hyps(1)) auto
  ultimately show ?case by (subst read_loop.simps) (simp add: Let_def)
qed

lemma read_loop_fail:
  "k \<le> i \<Longrightarrow> i < READ_REPEATS \<Longrightarrow> sint (pread i) < 0 \<Longrightarrow> \<forall>j. k \<le> j \<and> j < i \<longrightarrow> 0 \<le> sint (pread j) \<Longrightarrow>
   read_loop pread errno k = (Error (''O_DIRECT pread failed: '' @ errno i), Suc i)"
proof (induction "i - k" arbitrary: k)
  case 0
  then show ?case by (subst read_loop.simps) (simp add: Let_def)
next
  case (Suc n)
  then have "k < READ_REPEATS" "0 \<le> sint (pread k)" by auto
  moreover have "read_loop pread errno (k + 1) = (Error (''O_DIRECT pread failed: '' @ errno i), Suc i)"
    using Suc.prems Suc.hyps(2) by (intro Suc.hyps(1)) auto
  ultimately show ?case by (subst read_loop.simps) (simp add: Let_def)
qed

section \<open>Runs without and with contention\<close>

definition ex_synth :: "mutex \<Rightarrow> hstage \<Rightarrow> wstage \<Rightarrow> mstage \<Rightarrow> synth" where
  "ex_synth m h w s = \<lparr>mtx = m, holder_acquired = (h \<in> {H_read, H_unlock, H_done, H_panic}),
     holder_tid = (if h \<in> {H_unborn, H_store} then 0 else 11),
     waiter_tid = (if w \<in> {W_unborn, W_store} then 0 else 12), hst = h, wst = w, mst = s,
     reads = (if h \<in> {H_unlock, H_done} then 64 else 0)\<rparr>"

lemma ex_read: "cold_direct_read None (\<lambda>l. 4096) (\<lambda>i. 65536) (\<lambda>i. []) = (Done (), READ_REPEATS)"
  using read_loop_ok [of 0 "\<lambda>i. 65536" "\<lambda>i. []"]
  by (simp add: cold_direct_read_def aligned_buf_new_def from_size_align_def is_power_of_two_def ALIGN_def
      FILE_SIZE_def)

lemma ex_flag_raised: "synth_reached (ex_synth \<lparr>word = 1, pcs = [Holding, Outside]\<rparr> H_read W_store M_join_holder)"
proof -
  note defs = ex_synth_def mutex_step.simps compare_exchange_def by_thread_def
  let ?m = "\<lambda>w p q. \<lparr>word = w, pcs = [p, q]\<rparr>"
  have "synth_reached (ex_synth (?m 0 Outside Outside) H_store W_unborn M_poll)"
    using synth_reached.step [OF synth_reached.init synth_step.main_spawn]
    by (simp add: synth_init_def ex_synth_def mutex_new_def numeral_2_eq_2)
  then have "synth_reached (ex_synth (?m 0 Cas Outside) H_lock W_unborn M_poll)"
    by (rule synth_reached.step)
      (use synth_step.holder_store [of "ex_synth (?m 0 Outside Outside) H_store W_unborn M_poll" _ 11] in \<open>simp add: defs\<close>)
  then have "synth_reached (ex_synth (?m 1 Holding Outside) H_flag W_unborn M_poll)"
    by (rule synth_reached.step)
      (use synth_step.holder_lock [of "ex_synth (?m 0 Cas Outside) H_lock W_unborn M_poll" "Step 0"] in \<open>simp add: defs\<close>)
  then have "synth_reached (ex_synth (?m 1 Holding Outside) H_read W_unborn M_poll)"
    by (rule synth_reached.step)
      (use synth_step.holder_flag [of "ex_synth (?m 1 Holding Outside) H_flag W_unborn M_poll"] in \<open>simp add: defs\<close>)
  then show ?thesis
    by (rule synth_reached.step)
      (use synth_step.main_poll [of "ex_synth (?m 1 Holding Outside) H_read W_unborn M_poll"] in \<open>simp add: defs\<close>)
qed

lemma ex_waiter_holds: "synth_reached (ex_synth \<lparr>word = 1, pcs = [Outside, Holding]\<rparr> H_done W_locked M_join_holder)"
proof -
  note defs = ex_synth_def mutex_step.simps compare_exchange_def by_thread_def
  let ?m = "\<lambda>w p q. \<lparr>word = w, pcs = [p, q]\<rparr>"
  from ex_flag_raised have "synth_reached (ex_synth (?m 1 Release Outside) H_unlock W_store M_join_holder)"
    by (rule synth_reached.step)
      (use synth_step.holder_read [OF _ ex_read, of "ex_synth (?m 1 Holding Outside) H_read W_store M_join_holder"]
        in \<open>simp add: defs READ_REPEATS_def\<close>)
  then have "synth_reached (ex_synth (?m 0 Outside Outside) H_done W_store M_join_holder)"
    by (rule synth_reached.step)
      (use synth_step.holder_unlock [of "ex_synth (?m 1 Release Outside) H_unlock W_store M_join_holder" "Step 0"]
        in \<open>simp add: defs\<close>)
  then have "synth_reached (ex_synth (?m 0 Outside Cas) H_done W_lock M_join_holder)"
    by (rule synth_reached.step)
      (use synth_step.waiter_store [of "ex_synth (?m 0 Outside Outside) H_done W_store M_join_holder" _ 12]
        in \<open>simp add: defs\<close>)
  then show ?thesis
    by (rule synth_reached.step)
      (use synth_step.waiter_lock [of "ex_synth (?m 0 Outside Cas) H_done W_lock M_join_holder" "Step 1"]
        in \<open>simp add: defs\<close>)
qed

lemma ex_waiter_contends:
  "synth_reached (ex_synth \<lparr>word = 2, pcs = [Holding, Wait]\<rparr> H_read W_lock M_join_holder)"
  "synth_step (ex_synth \<lparr>word = 2, pcs = [Holding, Wait]\<rparr> H_read W_lock M_join_holder)
     (ex_synth \<lparr>word = 2, pcs = [Holding, Sleeping]\<rparr> H_read W_lock M_join_holder)"
proof -
  note defs = ex_synth_def mutex_step.simps compare_exchange_def by_thread_def
  let ?s = "\<lambda>w p. ex_synth \<lparr>word = w, pcs = [Holding, p]\<rparr> H_read W_lock M_join_holder"
  note step = synth_step.waiter_lock [where st = "Step 1"]
  from ex_flag_raised have "synth_reached (?s 1 Cas)"
    by (rule synth_reached.step)
      (use synth_step.waiter_store [of "ex_synth \<lparr>word = 1, pcs = [Holding, Outside]\<rparr> H_read W_store M_join_holder" _ 12]
        in \<open>simp add: defs\<close>)
  then have "synth_reached (?s 1 Swap)"
    by (rule synth_reached.step) (use step [of "?s 1 Cas"] in \<open>simp add: defs\<close>)
  then show "synth_reached (?s 2 Wait)"
    by (rule synth_reached.step) (use step [of "?s 1 Swap"] in \<open>simp add: defs\<close>)
  show "synth_step (?s 2 Wait) (?s 2 Sleeping)"
    using step [of "?s 2 Wait"] by (simp add: defs)
qed

section \<open>Contention is real\<close>

lemma synth_step_mutex:
  "synth_step s s' \<Longrightarrow> mtx s' = mtx s \<or> (\<exists>st. mutex_step st (mtx s) = Some (mtx s'))"
  by (induction rule: synth_step.induct) auto

lemma turned_away:
  assumes "mutex_step st m = Some m'" and "t < length (pcs m)"
    and "pcs m ! t = Cas \<and> pcs m' ! t = Swap \<or> pcs m ! t = Wait \<and> pcs m' ! t = Sleeping"
  shows "word m \<noteq> 0"
  using assms
  by (cases "(st, m)" rule: mutex_step.cases)
    (auto simp: mutex_step.simps compare_exchange_def nth_list_update split: if_splits option.splits)

lemma other_holds:
  assumes "reached 2 m" and "word m \<noteq> 0" and "\<not> holds (pcs m ! 1)"
  shows "holds (pcs m ! 0)"
proof -
  have "holders (pcs m) = 1" "length (pcs m) = 2"
    using reached_inv [OF assms(1)] reached_length [OF assms(1)] assms(2) by (simp_all add: mutex_inv_def)
  then have "filter holds (pcs m) \<noteq> []" by (auto simp: holders_def)
  then obtain q where "q \<in> set (pcs m)" "holds q" by (auto simp: filter_empty_conv)
  with \<open>length (pcs m) = 2\<close> assms(3) show ?thesis by (auto simp: in_set_conv_nth less_2_cases_iff)
qed

section \<open>Properties\<close>

text \<open>C39: The reproducer's ground truth: the waiter exists only after the holder has taken the
  lock; when it is turned away at its first try, or falls asleep, the holder holds the lock;
  and whenever the waiter holds it the holder has made all 64 reads and let go. So the
  waiter may find the lock free again, but a wait of it is for the holder and can only end
  after the holder's I/O.\<close>

theorem waiter_gets_lock_after_reads:
  assumes "synth_reached s"
  shows "(wst s = W_unborn \<or> holder_acquired s)
    \<and> (synth_step s s' \<and> (pcs (mtx s) ! 1 = Cas \<and> pcs (mtx s') ! 1 = Swap
         \<or> pcs (mtx s) ! 1 = Wait \<and> pcs (mtx s') ! 1 = Sleeping) \<longrightarrow> holds (pcs (mtx s) ! 0))
    \<and> (holds (pcs (mtx s) ! 1) \<longrightarrow> reads s = 64 \<and> hst s \<in> {H_unlock, H_done} \<and> \<not> holds (pcs (mtx s) ! 0))"
proof -
  have inv: "reached 2 (mtx s)" "holder_at (hst s) (pcs (mtx s) ! 0)" "waiter_at (wst s) (pcs (mtx s) ! 1)"
    "holder_acquired s = (hst s \<in> {H_read, H_unlock, H_done, H_panic})"
    "wst s = W_unborn \<or> holder_acquired s" "hst s \<in> {H_unlock, H_done} \<longrightarrow> reads s = READ_REPEATS"
    using synth_reached_inv [OF assms] unfolding synth_inv_def by blast+
  have len: "holders (pcs (mtx s)) \<le> 1" "length (pcs (mtx s)) = 2"
    using reached_inv [OF inv(1)] reached_length [OF inv(1)] by (simp_all add: mutex_inv_def)
  then have free: "\<not> holds (pcs (mtx s) ! 0)" if "holds (pcs (mtx s) ! 1)"
    using that holders_unique [of "pcs (mtx s)" 0 1] by auto
  have "hst s \<in> {H_unlock, H_done}" if h: "holds (pcs (mtx s) ! 1)"
  proof -
    have "wst s \<noteq> W_unborn" using h inv(3) by auto
    then have "hst s \<in> {H_read, H_unlock, H_done, H_panic}" using inv(4,5) by simp
    moreover have "hst s \<noteq> H_read" "hst s \<noteq> H_panic" using inv(2) free [OF h] by auto
    ultimately show ?thesis by simp
  qed
  moreover have "holds (pcs (mtx s) ! 0)"
    if step: "synth_step s s'" and away: "pcs (mtx s) ! 1 = Cas \<and> pcs (mtx s') ! 1 = Swap
         \<or> pcs (mtx s) ! 1 = Wait \<and> pcs (mtx s') ! 1 = Sleeping"
  proof -
    obtain st where "mutex_step st (mtx s) = Some (mtx s')" using synth_step_mutex [OF step] away by auto
    then have "word (mtx s) \<noteq> 0" using turned_away [of st "mtx s" "mtx s'" 1] away len(2) by simp
    then show ?thesis using other_holds [OF inv(1)] away by auto
  qed
  ultimately show ?thesis using free inv(5,6) by (auto simp: READ_REPEATS_def)
qed

theorem waiter_gets_lock_after_reads_witness:
  "reads (ex_synth \<lparr>word = 1, pcs = [Outside, Holding]\<rparr> H_done W_locked M_join_holder) = 64
   \<and> holds (pcs (mtx (ex_synth \<lparr>word = 2, pcs = [Holding, Wait]\<rparr> H_read W_lock M_join_holder)) ! 0)"
  using waiter_gets_lock_after_reads [OF ex_waiter_holds]
    waiter_gets_lock_after_reads [OF ex_waiter_contends(1)] ex_waiter_contends(2)
  by (simp add: ex_synth_def)

text \<open>C40: The repeated read makes all 64 reads or reports the first that failed: it succeeds
  exactly when none of them is negative, having made 64, and otherwise stops with the error
  of the first negative one.\<close>

theorem direct_read_first_failure:
  "(\<forall>i<64. 0 \<le> sint (pread i)) \<and> read_loop pread errno 0 = (Done (), 64) \<or>
   (\<exists>i<64. sint (pread i) < 0 \<and> (\<forall>j<i. 0 \<le> sint (pread j)) \<and>
      read_loop pread errno 0 = (Error (''O_DIRECT pread failed: '' @ errno i), Suc i))"
proof (cases "\<forall>i<64. 0 \<le> sint (pread i)")
  case True
  then show ?thesis using read_loop_ok [of 0 pread errno] by (simp add: READ_REPEATS_def)
next
  case False
  then obtain i where i: "i < 64" "sint (pread i) < 0" "\<forall>j<i. \<not> (j < 64 \<and> sint (pread j) < 0)"
    using exists_least_iff [of "\<lambda>i. i < 64 \<and> sint (pread i) < 0"] by (auto simp: not_le)
  then have "\<forall>j<i. 0 \<le> sint (pread j)" by auto
  with i read_loop_fail [of 0 i pread errno] show ?thesis by (auto simp: READ_REPEATS_def)
qed

theorem direct_read_first_failure_witness:
  "read_loop (\<lambda>i. if i = 3 then - 1 else 65536) (\<lambda>i. ''EIO'') 0 = (Error ''O_DIRECT pread failed: EIO'', 4)"
  using direct_read_first_failure [of "\<lambda>i. if i = 3 then - 1 else 65536" "\<lambda>i. ''EIO''"]
  by (auto split: if_splits)

end
