(* ===== verification/Spec2Isabelle.thy ===== *)
theory Spec2Isabelle
  imports Probe_Properties Explain_Properties Cli_Properties Reproducer
begin

text \<open>
  \<open>whyslow\<close> explains why a Linux process was slow. Five eBPF programs record when threads of
  the process leave the CPU, wait for or wake a futex, and do block I/O; a command-line tool
  loads them, starts or finds the process, drains their ring buffer into a trace file, and
  walks backwards from the longest stalls to what caused them. A small reproducer program
  makes a stall with a known cause. This development models all of the Rust code that does
  this, and proves that the trace is the process's and complete, and that a printed
  explanation is the chain of recorded events it claims to be.

  \<^bold>\<open>Parts and theories.\<close> Theories follow the crates, in the order in which they build on
  each other.

  \<^item> \<open>Rust_Prelude\<close>: the integer types as words, saturating subtraction, stable sorting and
    the generic lemmas; \<open>Repr_C\<close>: the layout of \<open>#[repr(C)]\<close> structs and little-endian bytes,
    with the locale \<open>c_struct\<close> for a struct that is written and read back; \<open>Rust_Text\<close>:
    decimal and hexadecimal printing and lossy UTF-8 decoding; \<open>Float64\<close>: the IEEE double
    arithmetic and the decimal printing behind \<open>{:.2}\<close>; \<open>Host\<close>: what an explanation asks the
    machine for (sysfs links, local time, the colour decision) and the answers.
  \<^item> \<open>Event_Schema\<close> (\<open>whyslow-common/src/lib.rs\<close>): the record the two sides share, its 56-byte
    layout and the packed block key.
  \<^item> \<open>Tracepoints\<close> (\<open>whyslow-ebpf/src/vmlinux.rs\<close>): the mirrored tracepoint structs as layouts
    with readers, and the futex and task constants.
  \<^item> \<open>Probes\<close> and \<open>Probe_Properties\<close> (\<open>whyslow-ebpf/src/main.rs\<close>): the maps as the record
    \<open>bpf_maps\<close>, one definition per \<open>try_\<close> function and per program. What the kernel gives one
    invocation (the tracepoint's memory, pid and tgid, clock, comm, whether insertion and
    reservation succeed, the padding bytes) is its \<open>bpf_ctx\<close>. The three in-flight maps keep
    one discipline, the locale \<open>span_source\<close>, interpreted for each of them.
  \<^item> \<open>Trace_File\<close> (\<open>trace.rs\<close>), \<open>Causal\<close>, \<open>Explain\<close>, \<open>Causal_Chains\<close>, \<open>Explain_Properties\<close>
    (\<open>causal.rs\<close>), \<open>Ui\<close> (\<open>ui.rs\<close>): the trace, the two window joins (locale \<open>window_join\<close>), the
    classification of causes, the device-name cache (locale \<open>resolver\<close>), the walker, its
    formatting and colours. \<open>Causal_Chains\<close> states what an explanation is, as a relation over
    events that mentions neither text nor cache nor loop.
  \<^item> \<open>System\<close>: the machine around the tool. Each call to the kernel or to \<open>aya\<close> is logged in a
    \<open>world\<close>, those of an explanation too, which records them as it makes them; the answer is a field of the record \<open>sys\<close>, a function of the world so far (of \<open>host\<close> for an explanation),
    so all that is proved holds for every behaviour of the machine. \<open>Loader\<close> (\<open>bpf.rs\<close>), \<open>Child\<close>
    (\<open>child.rs\<close>) and \<open>Cli\<close> (\<open>main.rs\<close>) are computations over it: a value, a chain of error
    messages, a panic, or no return.
  \<^item> \<open>Session\<close>: kernel and tool together. The kernel runs attached programs between any two
    calls of the tool; the ring the tool reads is the ring the programs fill. This interprets
    the locale \<open>fifo_ring\<close> that \<open>Loader\<close> states and proves its drain loop in.
    \<open>Cli_Properties\<close> has the properties of the commands, and this theory those that reach from
    the programs to the file.
  \<^item> \<open>Synthetic\<close> and \<open>Reproducer\<close> (\<open>synthetic/src/main.rs\<close>): the futex mutex as a step system
    over any number of threads, and the whole reproducer as one over its three threads.

  \<^bold>\<open>What is shown.\<close> For the programs: an invariant of all interleavings (every record is a
  whole event of the target), that each kind of span is reported exactly once with its
  duration and the right thread whatever happens in between, that other processes and the
  time before the target is set leave no trace, and the error paths. For the layouts: round
  trips of structs, records and keys. For the tool: the order of its calls, that the child
  only runs when it is traced, that loops end, what failures leave behind, and, here, that
  the file a successful \<open>run\<close> or \<open>attach\<close> writes holds all records up to its stop, in order.
  For the explanation: the joins and classifications are what their comments say, the
  printed chains refine the relation of \<open>Causal_Chains\<close> and, where time stamps are distinct,
  every chain of the relation is printed; lengths, order of times, independence of cache,
  colour and record order; accuracy of printed times; that it reads but never writes. For
  the reproducer: mutual exclusion, no lost wake-up, that every schedule without spurious
  wake-ups drains the mutex, and that its waiter waits only for the holder and gets the lock
  only after the holder's 64 reads.

  \<^bold>\<open>Bounds and loops.\<close> No fuel is used. The loops that may run forever (\<open>drain_items\<close>,
  \<open>drain_loop\<close>, \<open>wait_until_stopped\<close>) are partial functions whose value is \<^const>\<open>None\<close> when
  they do not return; that they return is proved under the stated conditions on the
  machine. The walker and the repeated read are total: their measures are the source's own
  limits, 8 hops (so at most 16 lines) and 64 reads. Integers keep their width; instants of
  \<open>Instant\<close> are integers with the overflow panic written out. \<open>sy_overflow_checks\<close> says
  whether the build panics on overflow.

  \<^bold>\<open>Assumptions of the model.\<close> One invocation of a program is one step: the kernel's hash maps
  are used by key and the ring reserves atomically. The sysfs links and the time zone do not
  change during one \<open>explain\<close>, and the painters use the colour decision of the process, which
  is logged when it is taken. A signal that arrives is seen at the next look at the flag; one
  before the handler is installed would end the process and is not a behaviour of the code.
  The reproducer's atomics are sequentially consistent, which the accesses to a single word
  are; the direct read is one step since it touches no shared state.

  \<^bold>\<open>Not modelled.\<close> Argument parsing (\<open>clap\<close>), the JSON text (\<open>serde_json\<close>: a codec parameter with
  its round trip as a named hypothesis where needed), program loading (\<open>aya\<close>: answers of the
  machine), the panic handler and licence section the eBPF target demands, the build
  scripts, the stub \<open>whyslow-ebpf/src/lib.rs\<close>, the integration test, and packaging.
\<close>

section \<open>From the probe to the trace file\<close>

definition traced_event :: "u32 \<Rightarrow> trace_event \<Rightarrow> bool" where
  "traced_event t e \<longleftrightarrow> pid e = t \<and> event_type e \<le> EVENT_BLOCK_IO \<and> duration_ns e \<le> timestamp_ns e
     \<and> text_ok (comm e)"

lemma good_record_traced: "good_record t r \<Longrightarrow> traced_event t (trace_event_from (event_of_bytes r))"
  by (simp add: good_record_def good_event_def traced_event_def text_ok_comm)

lemma report_quiet:
  assumes "report h sy a evs out k v = Some (Ret u, w')"
  shows "\<exists>new. w_log w' = new @ w_log v \<and> list_all quiet new"
proof -
  have "ask_call c \<Longrightarrow> quiet c" for c by (cases c) simp_all
  then show ?thesis using report_Ret [OF assms] by (fastforce simp: list_all_iff)
qed


lemma drained_and_reported:
  assumes d: "drain_ring_buffer sy ss v = Some (Ret evs, v')" and rep: "report h sy a evs out k v' = Some (Ret u, w')"
    and K: "wf_kernel K" "\<forall>w. sy_next sy w = ring_next K (w_log w)" and ss: "quiet_stop ss"
    and v: "popped (w_log v) = []" "only_target t (w_log v)"
  shows "\<exists>s items x. w_files w' out = Some s \<and> to_writer_pretty (sy_codec sy) (trace_of a evs) = (s, None)
    \<and> list_all (traced_event t) evs \<and> evs = map (\<lambda>r. trace_event_from (event_of_bytes r)) items
    \<and> fst (ss x) \<and> suffix (w_log v) (w_log x) \<and> suffix (w_log (snd (ss x))) (w_log w')
    \<and> prefix (submitted K (w_log x)) items \<and> prefix items (submitted K (w_log w'))"
proof -
  obtain x items where items: "fst (ss x)" "prefix (submitted K (w_log x)) items"
    "suffix (w_log v) (w_log x)" "suffix (w_log (snd (ss x))) (w_log v')"
    "list_all (good_record t) items" "evs = map (\<lambda>r. trace_event_from (event_of_bytes r)) items"
    "items = popped (w_log v')" using drain_session [OF d K ss v] by blast
  have "list_all (traced_event t) evs" using items(5,6) good_record_traced by (auto simp: list_all_iff)
  moreover obtain s where s: "to_writer_pretty (sy_codec sy) (trace_of a evs) = (s, None)" "w_files w' out = Some s"
    and new: "suffix (w_log v') (w_log w')" "popped (w_log w') = popped (w_log v')"
    using report_quiet [OF rep] report_Ret [OF rep] by (auto simp: suffix_def popped_quiet)
  moreover have "suffix (w_log (snd (ss x))) (w_log w')" using items(4) new(1) by (rule suffix_order.trans)
  moreover have "prefix items (submitted K (w_log w'))" using items(7) new(2) by (simp add: submitted_def)
  ultimately show ?thesis using items by blast
qed

section \<open>A busy machine\<close>

text \<open>
  A kernel under which thread 8 of process 7 blocks and runs again, just after tracing began;
  \<open>any_codec\<close> writes any trace.
\<close>

fun busy_kernel :: kernel where
  "busy_kernel (Ptrace_detach q # cs) =
     [(Sched_switch, switch_ctx 8 1 9 0x700000008 100), (Sched_switch, switch_ctx 9 0 8 0x700000009 350)]"
| "busy_kernel (Instant_now # cs) = (if Ring_empty \<in> set cs then [] else
     [(Sched_switch, switch_ctx 8 1 9 0x700000008 100), (Sched_switch, switch_ctx 9 0 8 0x700000009 350)])"
| "busy_kernel cs = []"

definition any_codec :: codec where
  "any_codec = \<lparr>to_writer_pretty = (\<lambda>tf. (''{}'', None)), from_reader = (\<lambda>s. Inl ''unsupported'')\<rparr>"

definition busy_sys :: sys where
  "busy_sys = ex_ring (\<lambda>w. ring_next busy_kernel (w_log w)) any_codec"

definition busy_record :: "u8 list" where
  "busy_record = event_bytes (\<lambda>_. 0) (event_new 350 250 0 7 8 EVENT_SCHED_BLOCK (replicate 16 98))"

lemma busy_wf: "wf_kernel busy_kernel"
proof -
  have "list_all (\<lambda>(p, ctx). wf_ctx ctx) (busy_kernel cs)" for cs
    by (induction cs rule: busy_kernel.induct) (simp_all add: wf_ctx_def TASK_COMM_LEN_def)
  then show ?thesis by (simp add: wf_kernel_def)
qed

lemma busy_print:
  "maps_after busy_kernel (Println l # cs) = maps_after busy_kernel cs"
  "maps_after busy_kernel (rev (map Println ls) @ cs) = maps_after busy_kernel cs"
proof -
  show one: "maps_after busy_kernel (Println l # cs) = maps_after busy_kernel cs" for l cs by simp
  show "maps_after busy_kernel (rev (map Println ls) @ cs) = maps_after busy_kernel cs"
    by (induction ls arbitrary: cs) (simp_all add: one del: maps_after.simps)
qed

lemma busy_banner: "maps_after busy_kernel (rev (banner_calls b en) @ cs) = maps_after busy_kernel cs"
  "Ring_empty \<notin> set (banner_calls b en)"
  by (auto simp: banner_calls_def busy_print simp del: maps_after.simps rev_map) auto

lemma busy_starts:
  "EVENTS (maps_after busy_kernel (rev (run_prologue False False [''ls''] 7 0))) = [busy_record]"
  "EVENTS (maps_after busy_kernel (rev (attach_prologue False False 7 (Some 0)))) = [busy_record]"
  using ring_example
  by (auto simp: run_prologue_def attach_prologue_def TRACEPOINTS_def attach_calls_def attached_def
      busy_print busy_banner ex_state_def busy_record_def simp del: do_step.simps)

lemma busy_drains:
  assumes "EVENTS (maps_after busy_kernel (w_log v)) = [busy_record]"
  shows "\<exists>v'. drain_ring_buffer busy_sys (has_exited busy_sys 7) v
      = Some (Ret [trace_event_from (event_of_bytes busy_record)], v')"
    "\<exists>v'. drain_ring_buffer busy_sys (attach_should_stop busy_sys 7 (Some 0)) v
      = Some (Ret [trace_event_from (event_of_bytes busy_record)], v')"
proof -
  have size: "length busy_record = size_of event_fields"
    by (simp add: busy_record_def event_layout)
  have busy: "sy_next busy_sys = (\<lambda>w. ring_next busy_kernel (w_log w))" "sy_now busy_sys = (\<lambda>w. 0)"
    "sy_sigint busy_sys = (\<lambda>w. False)" "sy_waitpid_nohang busy_sys = (\<lambda>w p. 7)"
    "open_map busy_sys m w = Some (Ret (), w)" for m w
    by (simp_all add: busy_sys_def ex_ring_def ex_sys_def open_map_def and_then_def ok_or_def check_def)
  show "\<exists>v'. drain_ring_buffer busy_sys (has_exited busy_sys 7) v
      = Some (Ret [trace_event_from (event_of_bytes busy_record)], v')"
    "\<exists>v'. drain_ring_buffer busy_sys (attach_should_stop busy_sys 7 (Some 0)) v
      = Some (Ret [trace_event_from (event_of_bytes busy_record)], v')"
    using assms size
    by (simp_all add: busy drain_ring_buffer_def and_then_def drain_loop.simps drain_items.simps ring_next_def
        push_item_def decode_event_def has_exited_def attach_should_stop_def load_stop_requested_def)
qed

lemma busy_ring: "\<forall>w. sy_next busy_sys w = ring_next busy_kernel (w_log w)"
  by (simp add: busy_sys_def ex_ring_def)

lemma busy_report: "\<exists>w'. report ex_machine busy_sys a evs ''t.json'' 3 v = Some (Ret (), w')"
  unfolding busy_sys_def by (subst ex_report [OF refl, where s = "''{}''"]) (simp_all add: any_codec_def Let_def)

lemma busy_ends:
  "\<exists>w'. run ex_machine busy_sys [''ls''] ''t.json'' 3 ex_world = Some (Ret (), w')"
  "\<exists>w'. attach ex_machine busy_sys 7 ''t.json'' 3 (Some 0) ex_world = Some (Ret (), w')"
proof -
  let ?v = "ex_world\<lparr>w_log := rev (run_prologue False False [''ls''] 7 0), w_enabled := True\<rparr>"
  let ?u = "ex_world\<lparr>w_log := rev (attach_prologue False False 7 (Some 0)), w_enabled := True\<rparr>"
  have "EVENTS (maps_after busy_kernel (w_log ?v)) = [busy_record]"
    "EVENTS (maps_after busy_kernel (w_log ?u)) = [busy_record]" by (simp_all add: busy_starts)
  from this [THEN busy_drains(1)] this [THEN busy_drains(2)]
  obtain v' u' where drains:
    "drain_ring_buffer busy_sys (has_exited busy_sys 7) ?v = Some (Ret [trace_event_from (event_of_bytes busy_record)], v')"
    "drain_ring_buffer busy_sys (attach_should_stop busy_sys 7 (Some 0)) ?u
      = Some (Ret [trace_event_from (event_of_bytes busy_record)], u')" by blast
  show "\<exists>w'. run ex_machine busy_sys [''ls''] ''t.json'' 3 ex_world = Some (Ret (), w')"
    using ex_run_to_drain [of "\<lambda>w. ring_next busy_kernel (w_log w)" any_codec, folded busy_sys_def]
      drains(1) busy_report by (simp add: and_then_def)
  show "\<exists>w'. attach ex_machine busy_sys 7 ''t.json'' 3 (Some 0) ex_world = Some (Ret (), w')"
    using ex_attach_to_drain [of "\<lambda>w. ring_next busy_kernel (w_log w)" any_codec, folded busy_sys_def]
      drains(2) busy_report by (simp add: and_then_def)
qed

section \<open>Properties of the whole tool\<close>

text \<open>C1: The trace a successful \<open>run\<close> writes is the child's and it is complete: every event in
  the file is of the forked child, of a known type, with a span that fits before its time
  stamp and a valid name; and the events are, in order, all records the probes submitted up
  to the exit check of this run that reaped the child, decoded without loss, and nothing that
  the probes did not submit.\<close>

theorem run_writes_complete_trace_of_child:
  assumes "run h sy cmd out k w = Some (Ret u, w')" and "w_log w = []" and "wf_kernel K"
    and "\<forall>w. sy_next sy w = ring_next K (w_log w)"
  shows "\<exists>child anchor evs s items x. sy_fork sy (forking_world h cmd w) cmd = Inr child
    \<and> w_files w' out = Some s \<and> to_writer_pretty (sy_codec sy) (trace_of anchor evs) = (s, None)
    \<and> list_all (traced_event child) evs
    \<and> evs = map (\<lambda>r. trace_event_from (event_of_bytes r)) items
    \<and> sy_waitpid_nohang sy x child = child \<and> Ptrace_detach child \<in> set (w_log x)
    \<and> suffix (Waitpid_nohang child # w_log x) (w_log w')
    \<and> prefix (submitted K (w_log x)) items \<and> prefix items (submitted K (w_log w'))"
proof -
  obtain child n a v evs v' where log: "w_log v = rev (run_prologue (w_enabled w) (h_color h) cmd child n)"
    and fork: "sy_fork sy (forking_world h cmd w) cmd = Inr child"
    and d: "drain_ring_buffer sy (has_exited sy child) v = Some (Ret evs, v')"
    and rep: "report h sy a evs out k v' = Some (Ret u, w')"
    using run_stages [OF assms(1)] assms(2) by auto
  have "popped (w_log v) = []" "only_target child (w_log v)"
    using log popped_prologue only_target_prologue by simp_all
  from drained_and_reported [OF d rep assms(3,4) quiet_stop_has_exited this]
  obtain s items x where x: "w_files w' out = Some s" "to_writer_pretty (sy_codec sy) (trace_of a evs) = (s, None)"
    "list_all (traced_event child) evs" "evs = map (\<lambda>r. trace_event_from (event_of_bytes r)) items"
    "fst (has_exited sy child x)" "suffix (w_log v) (w_log x)" "suffix (w_log (snd (has_exited sy child x))) (w_log w')"
    "prefix (submitted K (w_log x)) items" "prefix items (submitted K (w_log w'))" by blast
  have "Ptrace_detach child \<in> set (w_log v)" by (simp add: log run_prologue_def)
  then have "Ptrace_detach child \<in> set (w_log x)" using set_mono_suffix [OF x(6)] by blast
  moreover have "sy_waitpid_nohang sy x child = child" "suffix (Waitpid_nohang child # w_log x) (w_log w')"
    using x(5,7) by (simp_all add: has_exited_def)
  ultimately show ?thesis using fork x(1-4,8,9) by (intro exI conjI)
qed

theorem run_writes_complete_trace_of_child_witness:
  "\<exists>w' child anchor evs s items x. run ex_machine busy_sys [''ls''] ''t.json'' 3 ex_world = Some (Ret (), w')
    \<and> w_files w' ''t.json'' = Some s \<and> list_all (traced_event child) evs
    \<and> to_writer_pretty any_codec (trace_of anchor evs) = (s, None)
    \<and> evs = map (\<lambda>r. trace_event_from (event_of_bytes r)) items
    \<and> sy_waitpid_nohang busy_sys x child = child \<and> suffix (Waitpid_nohang child # w_log x) (w_log w')
    \<and> prefix (submitted busy_kernel (w_log x)) items"
proof -
  obtain w' where w': "run ex_machine busy_sys [''ls''] ''t.json'' 3 ex_world = Some (Ret (), w')"
    using busy_ends(1) by blast
  have codec: "sy_codec busy_sys = any_codec" and log: "w_log ex_world = []"
    by (simp_all add: busy_sys_def ex_ring_def ex_world_def)
  from run_writes_complete_trace_of_child [OF w' log busy_wf busy_ring, unfolded codec] w' show ?thesis
    by (elim exE conjE) (intro exI conjI, assumption+)
qed



end
